theory Spec2Isabelle
  imports Main
begin


section \<open>Data model\<close>

text \<open>
  The development embeds \<^verbatim>\<open>DocumentManager\<close> of
  \<^verbatim>\<open>source/app/service-providers/documents/index.ts\<close>. Strings are lists of
  characters, version numbers are natural numbers, and every object that the class
  mutates in place is a component of an explicit state that each operation returns
  updated. Log output is not part of the state. Pane sizes and the navigation history
  of a tab manager are read by none of the operations embedded here and are left out.
\<close>

subsection \<open>Tabs\<close>

text \<open>
  An entry of \<^verbatim>\<open>TabManager.openFiles\<close>: the code reads \<^verbatim>\<open>x.path\<close>. A tab
  manager holds the ordered tabs, the active path, if any, and "a set of pinned paths".
\<close>

record open_doc =
  path :: string

record tabman =
  openFiles :: "open_doc list"
  activeFile :: "string option"
  pinnedPaths :: "string set"

definition openPaths :: "tabman \<Rightarrow> string list" where
  "openPaths tm = map path (openFiles tm)"

text \<open>
  Modelled from the spec: \<^verbatim>\<open>TabManager.openFile\<close> is missing from the sources.
  A path that is already present is made active and the result is "no-op open";
  otherwise the path is appended "to the end of the order", made active, and the result
  is "opened".
\<close>

definition tm_openFile :: "string \<Rightarrow> tabman \<Rightarrow> bool \<times> tabman" where
  "tm_openFile p tm =
     (if p \<in> set (openPaths tm) then (False, tm\<lparr>activeFile := Some p\<rparr>)
      else (True, tm\<lparr>openFiles := openFiles tm @ [\<lparr>path = p\<rparr>], activeFile := Some p\<rparr>))"

text \<open>
  Modelled from the spec: \<^verbatim>\<open>TabManager.closeFile\<close> is missing from the sources.
  It "removes from order; if it was active, activates the neighbor (prefer the tab to
  its right, else left, else none); if the path was pinned, it is NOT auto-closed by
  bulk operations unless explicitly overridden", and the override is "clearing pinned
  status first". So a pinned path is not closed. The result tells whether a tab was
  removed. The tab removed is the first one with the path; tabs are unique by path
  within a leaf.
\<close>

definition tm_closeFile :: "string \<Rightarrow> tabman \<Rightarrow> bool \<times> tabman" where
  "tm_closeFile p tm =
     (let pre = takeWhile (\<lambda>f. path f \<noteq> p) (openFiles tm);
          rest = dropWhile (\<lambda>f. path f \<noteq> p) (openFiles tm)
      in case rest of
           [] \<Rightarrow> (False, tm)
         | _ # post \<Rightarrow>
             if p \<in> pinnedPaths tm then (False, tm)
             else
               (True,
                tm\<lparr>openFiles := pre @ post,
                   activeFile :=
                     (if activeFile tm = Some p
                      then (case post of
                              r # _ \<Rightarrow> Some (path r)
                            | [] \<Rightarrow> (if pre = [] then None else Some (path (last pre))))
                      else activeFile tm)\<rparr>))"

text \<open>
  Modelled from the spec: \<^verbatim>\<open>TabManager.setPinnedStatus\<close> is missing from the
  sources; it puts the path into the set of pinned paths or takes it out.
\<close>

definition tm_setPinnedStatus :: "string \<Rightarrow> bool \<Rightarrow> tabman \<Rightarrow> tabman" where
  "tm_setPinnedStatus p b tm =
     tm\<lparr>pinnedPaths := (if b then insert p (pinnedPaths tm) else pinnedPaths tm - {p})\<rparr>"

text \<open>
  Modelled from the spec: \<^verbatim>\<open>TabManager.replaceFilePath\<close> is missing from the
  sources. It "preserves position, active, and pinned status; returns whether a change
  occurred".
\<close>

definition tm_replaceFilePath :: "string \<Rightarrow> string \<Rightarrow> tabman \<Rightarrow> bool \<times> tabman" where
  "tm_replaceFilePath old new tm =
     (if old \<in> set (openPaths tm)
      then (True,
            tm\<lparr>openFiles := map (\<lambda>f. if path f = old then f\<lparr>path := new\<rparr> else f) (openFiles tm),
               activeFile := (if activeFile tm = Some old then Some new else activeFile tm),
               pinnedPaths := (if old \<in> pinnedPaths tm then insert new (pinnedPaths tm - {old})
                               else pinnedPaths tm)\<rparr>)
      else (False, tm))"

subsection \<open>Layout tree\<close>

record leaf =
  leafId :: string
  tabMan :: tabman

datatype direction = Horizontal | Vertical

datatype node = Leaf leaf | Branch string direction "node list"

text \<open>
  Modelled from the spec: \<^verbatim>\<open>DocumentTree\<close> is missing from the sources.
  \<^verbatim>\<open>getAllLeafs\<close> is the left-to-right traversal, \<^verbatim>\<open>findLeaf\<close> returns the
  leaf with the identifier or nothing. A leaf object is named by its identifier:
  mutating the object found by \<^verbatim>\<open>findLeaf\<close> is \<open>updateLeaf\<close> at that identifier.
\<close>

fun getAllLeafs :: "node \<Rightarrow> leaf list" where
  "getAllLeafs (Leaf l) = [l]"
| "getAllLeafs (Branch b d cs) = concat (map getAllLeafs cs)"

definition findLeaf :: "string \<Rightarrow> node \<Rightarrow> leaf option" where
  "findLeaf i t = find (\<lambda>l. leafId l = i) (getAllLeafs t)"

fun mapLeafs :: "(leaf \<Rightarrow> leaf) \<Rightarrow> node \<Rightarrow> node" where
  "mapLeafs f (Leaf l) = Leaf (f l)"
| "mapLeafs f (Branch b d cs) = Branch b d (map (mapLeafs f) cs)"

definition updateLeaf :: "string \<Rightarrow> (tabman \<Rightarrow> tabman) \<Rightarrow> node \<Rightarrow> node" where
  "updateLeaf i g t = mapLeafs (\<lambda>l. if leafId l = i then l\<lparr>tabMan := g (tabMan l)\<rparr> else l) t"

text \<open>
  Modelled from the spec: \<^verbatim>\<open>removeNode\<close> is missing from the sources. It "detaches
  a node and applies the collapse invariant recursively upward": "a Branch with one
  remaining child collapses -- that child replaces the Branch in its parent". A leaf
  that is the root of its tree has no parent Branch to be detached from and stays.
\<close>

fun isLeafWithId :: "string \<Rightarrow> node \<Rightarrow> bool" where
  "isLeafWithId i (Leaf l) = (leafId l = i)"
| "isLeafWithId i (Branch b d cs) = False"

fun collapse :: "string \<Rightarrow> direction \<Rightarrow> node list \<Rightarrow> node" where
  "collapse b d [c] = c"
| "collapse b d cs = Branch b d cs"

fun removeNode :: "string \<Rightarrow> node \<Rightarrow> node" where
  "removeNode i (Leaf l) = Leaf l"
| "removeNode i (Branch b d cs) =
     collapse b d (map (removeNode i) (filter (\<lambda>c. \<not> isLeafWithId i c) cs))"

subsection \<open>Documents\<close>

text \<open>
  The objects held in \<^verbatim>\<open>this.documents\<close>, with the fields that the class reads
  and writes. The descriptor components \<^verbatim>\<open>dir\<close>, \<^verbatim>\<open>name\<close> and
  \<^verbatim>\<open>ext\<close> are recomputed from the path by Node's path module on every change
  and are not carried. \<open>updates\<close> is the replay backlog of the update protocol.
\<close>

datatype doc_type = MDFile | CodeFile

record descriptor =
  dpath :: string
  dtype :: doc_type

text \<open>
  Modelled from the spec: an incremental update is "a minimal description of a text
  change (insert/delete ranges)"; the update type of the editor library is not part of
  the sources.
\<close>

datatype change = Insert nat string | Delete nat nat

record update =
  changes :: "change list"
  clientID :: string

fun applyChange :: "change \<Rightarrow> string \<Rightarrow> string" where
  "applyChange (Insert pos txt) s = take pos s @ txt @ drop pos s"
| "applyChange (Delete from to) s = take from s @ drop to s"

definition applyUpdate :: "update \<Rightarrow> string \<Rightarrow> string" where
  "applyUpdate u s = fold applyChange (changes u) s"

record Document =
  filePath :: string
  descriptor :: descriptor
  document :: string
  currentVersion :: nat
  lastSavedVersion :: nat
  updates :: "(nat \<times> update) list"
  saveTimeout :: "nat option"
  lastSavedWordCount :: int
  lastSavedCharCount :: int

subsection \<open>Events, effects and the manager state\<close>

datatype dp_event =
  NEW_WINDOW | NEW_LEAF | LEAF_CLOSED | OPEN_FILE | CLOSE_FILE | ACTIVE_FILE
  | FILES_SORTED | CHANGE_FILE_STATUS | FILE_SAVED | FILE_REMOTELY_CHANGED

text \<open>
  Calls to collaborators are recorded in the order in which they are issued. The
  context of a broadcast lists its fields; a field holding \<^verbatim>\<open>undefined\<close> is
  \<open>None\<close>. \<open>ConfigSet\<close> is a call of \<^verbatim>\<open>this._config.set\<close>; what it writes is
  the window map at the time of the call.
\<close>

datatype effect =
  Broadcast dp_event "(string \<times> string option) list"
  | ConfigSet
  | WatcherAdd string
  | WatcherUnwatch string
  | AskSaveChanges
  | SynchronizeDatabases
  | UpdateWordCount int
  | ClearTimeout nat
  | FSALSave doc_type string string

text \<open>
  The state of the class. \<open>watched\<close> is what \<^verbatim>\<open>this._watcher.getWatched()\<close>
  returns, the entries that the watcher lists for each directory, and
  \<open>pendingAdds\<close> are the paths handed to the watcher that it has not registered yet.
  \<^verbatim>\<open>splice\<close> takes a document object out of \<^verbatim>\<open>this.documents\<close>, and the
  object stays as it is for whoever holds it: \<open>detached\<close> lists these objects in the
  order in which they were taken out.
\<close>

record manager =
  windows :: "(string \<times> node) list"
  documents :: "Document list"
  detached :: "Document list"
  ignoreChanges :: "string list"
  watched :: "(string \<times> string list) list"
  pendingAdds :: "string list"
  shuttingDown :: bool
  effects :: "effect list"

datatype error = TypeError | IOFailure | NotFound | StaleBase

definition emit :: "effect \<Rightarrow> manager \<Rightarrow> manager" where
  "emit e s = s\<lparr>effects := effects s @ [e]\<rparr>"

definition broadcastEvent :: "dp_event \<Rightarrow> (string \<times> string option) list \<Rightarrow> manager \<Rightarrow> manager" where
  "broadcastEvent ev ctx s = emit (Broadcast ev ctx) s"

definition syncToConfig :: "manager \<Rightarrow> manager" where
  "syncToConfig s = emit ConfigSet s"

definition lookupWindow :: "manager \<Rightarrow> string \<Rightarrow> node option" where
  "lookupWindow s w = map_of (windows s) w"

definition updateWindow :: "string \<Rightarrow> (node \<Rightarrow> node) \<Rightarrow> manager \<Rightarrow> manager" where
  "updateWindow w g s =
     s\<lparr>windows := map (\<lambda>(k, t). if k = w then (k, g t) else (k, t)) (windows s)\<rparr>"

definition windowCount :: "manager \<Rightarrow> nat" where
  "windowCount s = length (windows s)"

section \<open>Windows\<close>

text \<open>
  \<^verbatim>\<open>newWindow\<close> draws identifiers until one is not a key of the window map. The
  draws are given as a list; the result is \<open>None\<close> when every draw collides. The
  tree of a new window is a single leaf without tabs, whose identifier is drawn too.
\<close>

fun freshKey :: "string list \<Rightarrow> string list \<Rightarrow> string option" where
  "freshKey existingKeys [] = None"
| "freshKey existingKeys (key # others) =
     (if key \<in> set existingKeys then freshKey existingKeys others else Some key)"

definition newWindow :: "string list \<Rightarrow> string \<Rightarrow> manager \<Rightarrow> manager option" where
  "newWindow draws newLeafId s =
     (case freshKey (map fst (windows s)) draws of
        None \<Rightarrow> None
      | Some key \<Rightarrow>
          Some (syncToConfig
            (broadcastEvent NEW_WINDOW [(''key'', Some key)]
              (s\<lparr>windows := windows s @
                   [(key, Leaf \<lparr>leafId = newLeafId,
                                tabMan = \<lparr>openFiles = [], activeFile = None,
                                          pinnedPaths = {}\<rparr>\<rparr>)]\<rparr>))))"

text \<open>
  \<^verbatim>\<open>closeWindow\<close>. The window map is an object created as \<^verbatim>\<open>{}\<close>, and
  \<^verbatim>\<open>windowId in this._windows\<close> is also true for the names that such an object
  inherits; \<^verbatim>\<open>delete\<close> removes an own key only.
\<close>

definition objectPrototypeNames :: "string list" where
  "objectPrototypeNames =
     [''constructor'', ''__defineGetter__'', ''__defineSetter__'', ''hasOwnProperty'',
      ''__lookupGetter__'', ''__lookupSetter__'', ''isPrototypeOf'', ''propertyIsEnumerable'',
      ''toString'', ''valueOf'', ''__proto__'', ''toLocaleString'']"

definition inWindows :: "string \<Rightarrow> manager \<Rightarrow> bool" where
  "inWindows windowId s =
     (windowId \<in> set (map fst (windows s)) \<or> windowId \<in> set objectPrototypeNames)"

definition closeWindow :: "string \<Rightarrow> manager \<Rightarrow> manager" where
  "closeWindow windowId s =
     (if shuttingDown s then s
      else let isLastWindow = (length (windows s) = 1)
           in if inWindows windowId s \<and> \<not> isLastWindow
              then syncToConfig (s\<lparr>windows := filter (\<lambda>(k, t). k \<noteq> windowId) (windows s)\<rparr>)
              else s)"

section \<open>The watch set\<close>

text \<open>\<^verbatim>\<open>[...new Set(openFiles)]\<close> keeps the first occurrence of every path.\<close>

definition uniq :: "string list \<Rightarrow> string list" where
  "uniq xs = fold (\<lambda>x acc. if x \<in> set acc then acc else acc @ [x]) xs []"

definition getOpenFiles :: "manager \<Rightarrow> string list" where
  "getOpenFiles s =
     uniq (concat (map (\<lambda>(windowId, tree).
             concat (map (\<lambda>l. openPaths (tabMan l)) (getAllLeafs tree))) (windows s)))"

text \<open>
  The watcher is a library object. \<^verbatim>\<open>getWatched\<close> returns the entries it lists
  for each directory, and the class joins directory and entry with
  \<^verbatim>\<open>path.join\<close>; the directories are absolute and normalised and an entry holds no
  separator, so that joining puts one separator between the two. \<^verbatim>\<open>add\<close> hands a
  path to the watcher, which registers it in its own time: the path is pending and
  \<^verbatim>\<open>getWatched\<close> does not list it until the watcher has registered it.
  \<^verbatim>\<open>unwatch\<close> takes the entry of the path out at once, and a pending path with it.
  \<open>watcherRegistered\<close> is the step of the watcher that ends the pending state; what it
  lists afterwards is given.
\<close>

definition pathJoin :: "string \<Rightarrow> string \<Rightarrow> string" where
  "pathJoin dir name = (if dir = ''/'' then dir @ name else dir @ ''/'' @ name)"

definition getWatchedFiles :: "manager \<Rightarrow> string list" where
  "getWatchedFiles s = concat (map (\<lambda>(dir, names). map (pathJoin dir) names) (watched s))"

definition watcher_unwatch :: "string \<Rightarrow> manager \<Rightarrow> manager" where
  "watcher_unwatch p s =
     emit (WatcherUnwatch p)
       (s\<lparr>watched := map (\<lambda>(dir, names). (dir, filter (\<lambda>name. pathJoin dir name \<noteq> p) names))
                       (watched s),
          pendingAdds := removeAll p (pendingAdds s)\<rparr>)"

definition watcher_add :: "string \<Rightarrow> manager \<Rightarrow> manager" where
  "watcher_add p s = emit (WatcherAdd p) (s\<lparr>pendingAdds := pendingAdds s @ [p]\<rparr>)"

definition watcherRegistered :: "(string \<times> string list) list \<Rightarrow> manager \<Rightarrow> manager" where
  "watcherRegistered listed s = s\<lparr>watched := listed, pendingAdds := []\<rparr>"

definition syncWatchedFilePaths :: "manager \<Rightarrow> manager" where
  "syncWatchedFilePaths s =
     (let watchedFiles = getWatchedFiles s;
          opened = getOpenFiles s;
          s1 = fold (\<lambda>watchedFile st.
                 if watchedFile \<notin> set opened then watcher_unwatch watchedFile st else st)
                 watchedFiles s
      in fold (\<lambda>openFile st.
                 if openFile \<notin> set watchedFiles then watcher_add openFile st else st)
              opened s1)"

section \<open>Documents and their versions\<close>

fun updateFirst :: "('a \<Rightarrow> bool) \<Rightarrow> ('a \<Rightarrow> 'a) \<Rightarrow> 'a list \<Rightarrow> 'a list" where
  "updateFirst P g [] = []"
| "updateFirst P g (x # xs) = (if P x then g x # xs else x # updateFirst P g xs)"

fun removeFirst :: "('a \<Rightarrow> bool) \<Rightarrow> 'a list \<Rightarrow> 'a list" where
  "removeFirst P [] = []"
| "removeFirst P (x # xs) = (if P x then xs else x # removeFirst P xs)"

definition findDocument :: "manager \<Rightarrow> string \<Rightarrow> Document option" where
  "findDocument s p = find (\<lambda>doc. filePath doc = p) (documents s)"

text \<open>
  Modelled from the spec: \<^verbatim>\<open>DocumentAuthority.isModified\<close> is missing from the
  sources. "\<^verbatim>\<open>isModified(path)\<close> is \<^verbatim>\<open>lastSavedVersion != currentVersion\<close>"; a path
  without a tracked document has no versions that differ. The tracked documents are
  those of \<^verbatim>\<open>this.documents\<close>.
\<close>

definition isModified :: "manager \<Rightarrow> string \<Rightarrow> bool" where
  "isModified s p =
     (case findDocument s p of
        None \<Rightarrow> False
      | Some doc \<Rightarrow> lastSavedVersion doc \<noteq> currentVersion doc)"

text \<open>
  Modelled from the spec: \<^verbatim>\<open>DocumentAuthority.pushUpdates\<close> is missing from the
  sources; the class only forwards the request to it. The request is "accepted only if
  \<^verbatim>\<open>baseVersion == currentVersion\<close>". "On acceptance: applies updates to the
  canonical text in order, increments \<^verbatim>\<open>currentVersion\<close> by the number of updates
  applied, stores them in the replay backlog". "Returns the new version. Fails with
  \<^verbatim>\<open>StaleBase\<close> if \<^verbatim>\<open>baseVersion != currentVersion\<close>". A path unknown to the
  authority is \<^verbatim>\<open>NotFound\<close>. Each update is stored with the version it produced.
  Callers parked in \<^verbatim>\<open>pullUpdates\<close> are not part of the state.
\<close>

definition acceptUpdate :: "update \<Rightarrow> Document \<Rightarrow> Document" where
  "acceptUpdate u doc =
     doc\<lparr>document := applyUpdate u (document doc),
         currentVersion := Suc (currentVersion doc),
         updates := updates doc @ [(Suc (currentVersion doc), u)]\<rparr>"

definition pushUpdates :: "string \<Rightarrow> nat \<Rightarrow> update list \<Rightarrow> manager \<Rightarrow> (error + nat) \<times> manager" where
  "pushUpdates p baseVersion ups s =
     (case findDocument s p of
        None \<Rightarrow> (Inl NotFound, s)
      | Some doc \<Rightarrow>
          if baseVersion \<noteq> currentVersion doc then (Inl StaleBase, s)
          else let doc' = fold acceptUpdate ups doc
               in (Inr (currentVersion doc'),
                   s\<lparr>documents := updateFirst (\<lambda>d. filePath d = p) (\<lambda>d. doc') (documents s)\<rparr>))"

section \<open>Saving\<close>

text \<open>
  \<^verbatim>\<open>saveFile\<close> runs in two parts. \<open>saveFile_begin\<close> is everything up to the call of
  the I/O collaborator; it returns the document type and the content handed over, or
  nothing when the path has no document. \<open>saveFile_finish\<close> is what follows the
  awaited write: a write that fails rejects the call and nothing more is executed.
  Between the two, other requests can run. The word and character counters of the
  markdown utilities are parameters.
\<close>

datatype io_result = WriteOk | WriteFailed

definition saveFile_begin ::
  "(string \<Rightarrow> int) \<Rightarrow> (string \<Rightarrow> int) \<Rightarrow> string \<Rightarrow> manager \<Rightarrow> (doc_type \<times> string) option \<times> manager" where
  "saveFile_begin countWords countChars p s =
     (case findDocument s p of
        None \<Rightarrow> (None, s)
      | Some doc \<Rightarrow>
          let s1 = (case saveTimeout doc of None \<Rightarrow> s | Some h \<Rightarrow> emit (ClearTimeout h) s);
              content = document doc;
              doc1 = doc\<lparr>saveTimeout := None, lastSavedVersion := currentVersion doc\<rparr>;
              isFile = (dtype (descriptor doc) = MDFile);
              newWordCount = countWords content;
              newCharCount = countChars content;
              s2 = (if isFile then emit (UpdateWordCount (newWordCount - lastSavedWordCount doc)) s1
                    else s1);
              doc2 = (if isFile
                      then doc1\<lparr>lastSavedWordCount := newWordCount, lastSavedCharCount := newCharCount\<rparr>
                      else doc1);
              s3 = s2\<lparr>documents := updateFirst (\<lambda>d. filePath d = p) (\<lambda>d. doc2) (documents s2),
                      ignoreChanges := ignoreChanges s2 @ [p]\<rparr>
          in (Some (dtype (descriptor doc), content),
              emit (FSALSave (dtype (descriptor doc)) (dpath (descriptor doc)) content) s3))"

definition saveFile_finish :: "io_result \<Rightarrow> doc_type \<Rightarrow> string \<Rightarrow> manager \<Rightarrow> (error + bool) \<times> manager" where
  "saveFile_finish io ty p s =
     (case io of
        WriteFailed \<Rightarrow> (Inl IOFailure, s)
      | WriteOk \<Rightarrow>
          let s1 = (if ty = MDFile then emit SynchronizeDatabases s else s)
          in (Inr True,
              broadcastEvent FILE_SAVED [(''filePath'', Some p)]
                (broadcastEvent CHANGE_FILE_STATUS
                   [(''filePath'', Some p), (''status'', Some ''modification'')] s1)))"

text \<open>The whole of \<^verbatim>\<open>saveFile\<close> when no other request runs during the write.\<close>

definition saveFile ::
  "(string \<Rightarrow> int) \<Rightarrow> (string \<Rightarrow> int) \<Rightarrow> io_result \<Rightarrow> string \<Rightarrow> manager \<Rightarrow> (error + bool) \<times> manager" where
  "saveFile countWords countChars io p s =
     (case saveFile_begin countWords countChars p s of
        (None, s1) \<Rightarrow> (Inr False, s1)
      | (Some (ty, content), s1) \<Rightarrow> saveFile_finish io ty p s1)"

section \<open>Opening and closing files\<close>

definition allLeafs :: "manager \<Rightarrow> leaf list" where
  "allLeafs s = concat (map (\<lambda>(windowId, tree). getAllLeafs tree) (windows s))"

definition setTabMan :: "string \<Rightarrow> string \<Rightarrow> tabman \<Rightarrow> manager \<Rightarrow> manager" where
  "setTabMan windowId lid tm s = updateWindow windowId (updateLeaf lid (\<lambda>old. tm)) s"

definition leafCtx :: "string \<Rightarrow> string \<Rightarrow> string option \<Rightarrow> (string \<times> string option) list" where
  "leafCtx windowId lid fp = [(''windowId'', Some windowId), (''leafId'', Some lid), (''filePath'', fp)]"

text \<open>
  \<^verbatim>\<open>openFile\<close>. The configuration value \<^verbatim>\<open>system.avoidNewTabs\<close> is a
  parameter; \<^verbatim>\<open>leafId\<close> and \<^verbatim>\<open>newTab\<close> may be undefined. Indexing the window
  map with an unknown identifier yields \<^verbatim>\<open>undefined\<close>, and the method call on it
  throws.
\<close>

definition resolveLeaf :: "string option \<Rightarrow> node \<Rightarrow> leaf option" where
  "resolveLeaf leafIdOpt tree =
     (case leafIdOpt of
        None \<Rightarrow> (case getAllLeafs tree of [] \<Rightarrow> None | l # ls \<Rightarrow> Some l)
      | Some i \<Rightarrow> findLeaf i tree)"

definition openFile ::
  "bool \<Rightarrow> string \<Rightarrow> string option \<Rightarrow> string \<Rightarrow> bool option \<Rightarrow> manager \<Rightarrow> (error + bool) \<times> manager" where
  "openFile avoidNewTabs windowId leafIdOpt fp newTab s =
     (case lookupWindow s windowId of
        None \<Rightarrow> (Inl TypeError, s)
      | Some tree \<Rightarrow>
          (case resolveLeaf leafIdOpt tree of
             None \<Rightarrow> (Inr False, s)
           | Some lf \<Rightarrow>
               let lid = leafId lf; tm = tabMan lf in
               if fp \<in> set (openPaths tm)
               then (Inr True,
                     broadcastEvent ACTIVE_FILE (leafCtx windowId lid (Some fp))
                       (setTabMan windowId lid (snd (tm_openFile fp tm)) s))
               else
                 let active = activeFile tm;
                     ret = fst (tm_openFile fp tm);
                     tm1 = snd (tm_openFile fp tm);
                     s1 = setTabMan windowId lid tm1 s;
                     closeIt = (case active of
                                  None \<Rightarrow> False
                                | Some a \<Rightarrow> avoidNewTabs \<and> newTab \<noteq> Some True \<and> \<not> isModified s a);
                     tm2 = (case active of
                              None \<Rightarrow> tm1
                            | Some a \<Rightarrow> if closeIt then snd (tm_closeFile a tm1) else tm1);
                     s2 = (if closeIt
                           then broadcastEvent ACTIVE_FILE (leafCtx windowId lid (activeFile tm2))
                                  (broadcastEvent CLOSE_FILE (leafCtx windowId lid (Some fp))
                                    (syncWatchedFilePaths (setTabMan windowId lid tm2 s1)))
                           else s1);
                     s3 = (if ret then broadcastEvent OPEN_FILE (leafCtx windowId lid (Some fp)) s2
                           else s2)
                 in (Inr ret,
                     syncToConfig
                       (emit SynchronizeDatabases
                         (broadcastEvent ACTIVE_FILE (leafCtx windowId lid (activeFile tm2)) s3)))))"

text \<open>
  \<^verbatim>\<open>closeFile\<close>. The answer of \<^verbatim>\<open>askSaveChanges\<close> is a parameter
  (\<^verbatim>\<open>0 = Save, 1 = Don't save\<close>, anything else cancels), as is the outcome of the
  write when the answer is to save.
\<close>

datatype consent = Save | Discard | Cancel

definition numOpenInstances :: "manager \<Rightarrow> string \<Rightarrow> nat" where
  "numOpenInstances s fp = length (filter (\<lambda>l. fp \<in> set (openPaths (tabMan l))) (allLeafs s))"

definition clearModificationFlag :: "string \<Rightarrow> manager \<Rightarrow> manager" where
  "clearModificationFlag fp s =
     s\<lparr>documents := updateFirst (\<lambda>d. filePath d = fp)
                       (\<lambda>d. d\<lparr>lastSavedVersion := currentVersion d\<rparr>) (documents s)\<rparr>"

text \<open>
  \<^verbatim>\<open>this.documents.splice(this.documents.indexOf(openFile), 1)\<close>, where
  \<^verbatim>\<open>openFile\<close> is the first document with the path.
\<close>

definition removeDocument :: "string \<Rightarrow> manager \<Rightarrow> manager" where
  "removeDocument fp s =
     s\<lparr>documents := removeFirst (\<lambda>d. filePath d = fp) (documents s),
       detached := detached s @ (case findDocument s fp of None \<Rightarrow> [] | Some doc \<Rightarrow> [doc])\<rparr>"

text \<open>The second half of \<^verbatim>\<open>closeFile\<close>: closing the tab in the leaf found.\<close>

definition closeTab :: "string \<Rightarrow> leaf \<Rightarrow> string \<Rightarrow> manager \<Rightarrow> (error + bool) \<times> manager" where
  "closeTab windowId lf fp s =
     (let lid = leafId lf;
          ret = fst (tm_closeFile fp (tabMan lf));
          tm' = snd (tm_closeFile fp (tabMan lf))
      in if ret
         then
           let s1 = broadcastEvent ACTIVE_FILE (leafCtx windowId lid (activeFile tm'))
                      (broadcastEvent CLOSE_FILE (leafCtx windowId lid (Some fp))
                        (syncWatchedFilePaths (syncToConfig (setTabMan windowId lid tm' s))));
               s2 = (if openFiles tm' = []
                     then syncToConfig
                            (broadcastEvent LEAF_CLOSED
                               [(''windowId'', Some windowId), (''leafId'', Some lid)]
                               (updateWindow windowId (removeNode lid) s1))
                     else s1)
           in (Inr True, emit SynchronizeDatabases s2)
         else (Inr False, s))"

definition closeFile ::
  "(string \<Rightarrow> int) \<Rightarrow> (string \<Rightarrow> int) \<Rightarrow> consent \<Rightarrow> io_result \<Rightarrow>
     string \<Rightarrow> string \<Rightarrow> string \<Rightarrow> manager \<Rightarrow> (error + bool) \<times> manager" where
  "closeFile countWords countChars response io windowId lid fp s =
     (case lookupWindow s windowId of
        None \<Rightarrow> (Inl TypeError, s)
      | Some tree \<Rightarrow>
          (case findLeaf lid tree of
             None \<Rightarrow> (Inr False, s)
           | Some lf \<Rightarrow>
               if findDocument s fp \<noteq> None \<and> isModified s fp \<and> numOpenInstances s fp = 1
               then
                 let s1 = emit AskSaveChanges s in
                 (case response of
                    Discard \<Rightarrow> closeTab windowId lf fp (removeDocument fp (clearModificationFlag fp s1))
                  | Save \<Rightarrow>
                      (case saveFile countWords countChars io fp s1 of
                         (Inl e, s2) \<Rightarrow> (Inl e, s2)
                       | (Inr saved, s2) \<Rightarrow> closeTab windowId lf fp (removeDocument fp s2))
                  | Cancel \<Rightarrow> (Inr False, s1))
               else closeTab windowId lf fp s))"

text \<open>
  \<^verbatim>\<open>closeFileEverywhere\<close> visits every leaf of every window and mutates the leaf it
  visits; the events follow the order of the visit.
\<close>

definition forceCloseTab :: "string \<Rightarrow> tabman \<Rightarrow> tabman" where
  "forceCloseTab fp tm =
     (if fp \<in> set (openPaths tm) then snd (tm_closeFile fp (tm_setPinnedStatus fp False tm))
      else tm)"

definition forceCloseEvents :: "string \<Rightarrow> string \<Rightarrow> leaf \<Rightarrow> effect list" where
  "forceCloseEvents key fp lf =
     (if fp \<in> set (openPaths (tabMan lf)) \<and>
         fst (tm_closeFile fp (tm_setPinnedStatus fp False (tabMan lf)))
      then [Broadcast CLOSE_FILE (leafCtx key (leafId lf) (Some fp))]
      else [])"

definition closeFileEverywhere :: "string \<Rightarrow> manager \<Rightarrow> manager" where
  "closeFileEverywhere fp s =
     s\<lparr>windows := map (\<lambda>(key, tree).
                     (key, mapLeafs (\<lambda>lf. lf\<lparr>tabMan := forceCloseTab fp (tabMan lf)\<rparr>) tree))
                   (windows s),
       effects := effects s @
                  concat (map (\<lambda>(key, tree). concat (map (forceCloseEvents key fp) (getAllLeafs tree)))
                    (windows s))\<rparr>"

section \<open>Renaming\<close>

text \<open>
  The string methods of the language that \<^verbatim>\<open>hasMovedDir\<close> calls.
  \<^verbatim>\<open>s.startsWith(pre)\<close> tests for a prefix. \<^verbatim>\<open>s.replace(pat, rep)\<close> with a
  string pattern replaces the first occurrence of \<^verbatim>\<open>pat\<close>; the replacement is a
  template in which \<^verbatim>\<open>$$\<close> stands for a dollar sign, \<^verbatim>\<open>$&\<close> for the matched text,
  \<^verbatim>\<open>$`\<close> for the text before the match and \<^verbatim>\<open>$'\<close> for the text after it. A
  string pattern has no capture groups, so a dollar sign before anything else is literal.
\<close>

fun startsWith :: "string \<Rightarrow> string \<Rightarrow> bool" where
  "startsWith s [] = True"
| "startsWith [] (c # cs) = False"
| "startsWith (x # xs) (c # cs) = (x = c \<and> startsWith xs cs)"

fun getSubstitution :: "string \<Rightarrow> string \<Rightarrow> string \<Rightarrow> string \<Rightarrow> string" where
  "getSubstitution matched pre post [] = []"
| "getSubstitution matched pre post [c] = [c]"
| "getSubstitution matched pre post (c # c' # r) =
     (if c = CHR ''$'' \<and> c' = CHR ''$'' then CHR ''$'' # getSubstitution matched pre post r
      else if c = CHR ''$'' \<and> c' = CHR ''&'' then matched @ getSubstitution matched pre post r
      else if c = CHR ''$'' \<and> c' = CHR 0x60 then pre @ getSubstitution matched pre post r
      else if c = CHR ''$'' \<and> c' = CHR 0x27 then post @ getSubstitution matched pre post r
      else c # getSubstitution matched pre post (c' # r))"

fun splitFirst :: "string \<Rightarrow> string \<Rightarrow> (string \<times> string) option" where
  "splitFirst pat [] = (if pat = [] then Some ([], []) else None)"
| "splitFirst pat (c # cs) =
     (if startsWith (c # cs) pat then Some ([], drop (length pat) (c # cs))
      else map_option (\<lambda>(pre, post). (c # pre, post)) (splitFirst pat cs))"

definition jsReplace :: "string \<Rightarrow> string \<Rightarrow> string \<Rightarrow> string" where
  "jsReplace s pat rep =
     (case splitFirst pat s of
        None \<Rightarrow> s
      | Some (pre, post) \<Rightarrow> pre @ getSubstitution pat pre post rep @ post)"

text \<open>
  \<^verbatim>\<open>hasMovedFile\<close>. \<^verbatim>\<open>forEachLeaf\<close> visits every leaf of every window; the
  callback replaces the path in the leaf it visits, and a leaf that changed is followed
  by a write of the configuration and is notified at the end.
\<close>

definition movedLeafs :: "string \<Rightarrow> string \<Rightarrow> manager \<Rightarrow> (string \<times> string) list" where
  "movedLeafs oldPath newPath s =
     concat (map (\<lambda>(windowId, tree).
       map (\<lambda>lf. (windowId, leafId lf))
         (filter (\<lambda>lf. fst (tm_replaceFilePath oldPath newPath (tabMan lf))) (getAllLeafs tree)))
       (windows s))"

definition hasMovedFile :: "string \<Rightarrow> string \<Rightarrow> manager \<Rightarrow> manager" where
  "hasMovedFile oldPath newPath s =
     (case findDocument s oldPath of
        None \<Rightarrow> s
      | Some openDoc \<Rightarrow>
          let leafsToNotify = movedLeafs oldPath newPath s;
              s1 = s\<lparr>documents :=
                       updateFirst (\<lambda>d. filePath d = oldPath)
                         (\<lambda>d. d\<lparr>filePath := newPath, descriptor := (descriptor d)\<lparr>dpath := newPath\<rparr>\<rparr>)
                         (documents s),
                     windows :=
                       map (\<lambda>(windowId, tree).
                         (windowId,
                          mapLeafs (\<lambda>lf. lf\<lparr>tabMan := snd (tm_replaceFilePath oldPath newPath (tabMan lf))\<rparr>)
                            tree))
                         (windows s),
                     effects := effects s @ map (\<lambda>x. ConfigSet) leafsToNotify\<rparr>;
              s2 = syncWatchedFilePaths s1
          in s2\<lparr>effects := effects s2 @
                  concat (map (\<lambda>(windowId, lid).
                    [Broadcast CLOSE_FILE
                       [(''filePath'', Some oldPath), (''windowId'', Some windowId), (''leafId'', Some lid)],
                     Broadcast OPEN_FILE
                       [(''filePath'', Some newPath), (''windowId'', Some windowId), (''leafId'', Some lid)]])
                    leafsToNotify)\<rparr>)"

text \<open>
  \<^verbatim>\<open>hasMovedDir\<close> filters the document objects first and then visits them; the
  path of each is read when it is visited. A document object is named by its position
  in \<^verbatim>\<open>this.documents\<close>, which \<^verbatim>\<open>hasMovedFile\<close> keeps.
\<close>

definition movedDirStep :: "string \<Rightarrow> string \<Rightarrow> nat \<Rightarrow> manager \<Rightarrow> manager" where
  "movedDirStep oldPath newPath i s =
     (if i < length (documents s)
      then let fp = filePath (documents s ! i)
           in hasMovedFile fp (jsReplace fp oldPath newPath) s
      else s)"

definition hasMovedDir :: "string \<Rightarrow> string \<Rightarrow> manager \<Rightarrow> manager" where
  "hasMovedDir oldPath newPath s =
     fold (movedDirStep oldPath newPath)
       (filter (\<lambda>i. startsWith (filePath (documents s ! i)) oldPath) [0 ..< length (documents s)])
       s"

section \<open>Watcher events\<close>

text \<open>
  The handler of the watcher's \<^verbatim>\<open>all\<close> event.

  Modelled from the spec: \<^verbatim>\<open>handleRemoteChange\<close> is missing from the sources.
  "A change event asks the DocumentAuthority to reconcile content": what it does to
  the tracked documents, and the calls it issues, are a parameter.
\<close>

definition processEvent ::
  "(string \<Rightarrow> Document list \<Rightarrow> Document list \<times> effect list) \<Rightarrow>
     string \<Rightarrow> string \<Rightarrow> manager \<Rightarrow> manager" where
  "processEvent handleRemoteChange event fp s =
     (if event = ''unlink'' then closeFileEverywhere fp s
      else if event = ''change''
      then s\<lparr>documents := fst (handleRemoteChange fp (documents s)),
             effects := effects s @ snd (handleRemoteChange fp (documents s))\<rparr>
      else s)"

definition onWatcherEvent ::
  "(string \<Rightarrow> Document list \<Rightarrow> Document list \<times> effect list) \<Rightarrow>
     string \<Rightarrow> string \<Rightarrow> manager \<Rightarrow> manager" where
  "onWatcherEvent handleRemoteChange event fp s =
     (if fp \<in> set (ignoreChanges s) then s\<lparr>ignoreChanges := remove1 fp (ignoreChanges s)\<rparr>
      else processEvent handleRemoteChange event fp s)"

section \<open>Further requests\<close>

definition setPinnedStatus :: "string \<Rightarrow> string \<Rightarrow> string \<Rightarrow> bool \<Rightarrow> manager \<Rightarrow> error option \<times> manager" where
  "setPinnedStatus windowId lid fp shouldBePinned s =
     (case lookupWindow s windowId of
        None \<Rightarrow> (Some TypeError, s)
      | Some tree \<Rightarrow>
          (case findLeaf lid tree of
             None \<Rightarrow> (None, s)
           | Some lf \<Rightarrow>
               (None,
                syncToConfig
                  (broadcastEvent CHANGE_FILE_STATUS
                     [(''windowId'', Some windowId), (''leafId'', Some lid),
                      (''filePath'', Some fp), (''status'', Some ''pinned'')]
                     (setTabMan windowId lid (tm_setPinnedStatus fp shouldBePinned (tabMan lf)) s)))))"

definition closeLeaf :: "string \<Rightarrow> string \<Rightarrow> manager \<Rightarrow> error option \<times> manager" where
  "closeLeaf windowId lid s =
     (case lookupWindow s windowId of
        None \<Rightarrow> (Some TypeError, s)
      | Some tree \<Rightarrow>
          (case findLeaf lid tree of
             None \<Rightarrow> (None, s)
           | Some lf \<Rightarrow>
               (None,
                broadcastEvent LEAF_CLOSED [(''windowId'', Some windowId), (''leafId'', Some lid)]
                  (updateWindow windowId (removeNode lid) s))))"

text \<open>
  \<^verbatim>\<open>moveFile\<close> opens the file in the target and then reads the origin again: when
  both are the same leaf the origin already holds the new tab.
\<close>

definition moveFile ::
  "string \<Rightarrow> string \<Rightarrow> string \<Rightarrow> string \<Rightarrow> string \<Rightarrow> manager \<Rightarrow> error option \<times> manager" where
  "moveFile originWindow targetWindow originLeaf targetLeaf fp s =
     (case (lookupWindow s originWindow, lookupWindow s targetWindow) of
        (Some otree, Some ttree) \<Rightarrow>
          (case (findLeaf originLeaf otree, findLeaf targetLeaf ttree) of
             (Some origin, Some target) \<Rightarrow>
               let success = fst (tm_openFile fp (tabMan target));
                   s1 = setTabMan targetWindow targetLeaf (snd (tm_openFile fp (tabMan target))) s;
                   s2 = (if success
                         then syncToConfig
                                (broadcastEvent ACTIVE_FILE
                                   [(''windowId'', Some targetWindow), (''leafId'', Some targetLeaf)]
                                   (broadcastEvent OPEN_FILE (leafCtx targetWindow targetLeaf (Some fp)) s1))
                         else s1);
                   originTabs = (case Option.bind (lookupWindow s2 originWindow) (findLeaf originLeaf) of
                                   None \<Rightarrow> tabMan origin
                                 | Some lf \<Rightarrow> tabMan lf)
               in if length (openFiles originTabs) = 1
                  then (None, syncToConfig (snd (closeLeaf originWindow originLeaf s2)))
                  else if fst (tm_closeFile fp originTabs)
                  then (None,
                        syncToConfig
                          (broadcastEvent ACTIVE_FILE
                             [(''windowId'', Some originWindow), (''leafId'', Some originLeaf)]
                             (broadcastEvent CLOSE_FILE (leafCtx originWindow originLeaf (Some fp))
                               (setTabMan originWindow originLeaf (snd (tm_closeFile fp originTabs)) s2))))
                  else (None, s2)
           | _ \<Rightarrow> (None, s))
      | _ \<Rightarrow> (Some TypeError, s))"

text \<open>
  \<^verbatim>\<open>notifyRemoteChange\<close> removes the document at the index that
  \<^verbatim>\<open>findIndex\<close> returns; for a path without a document the index is \<^verbatim>\<open>-1\<close>,
  and \<^verbatim>\<open>splice(-1, 1)\<close> removes the last element. The context of the broadcast is
  the path.
\<close>

definition notifyRemoteChange :: "string \<Rightarrow> manager \<Rightarrow> manager" where
  "notifyRemoteChange fp s =
     broadcastEvent FILE_REMOTELY_CHANGED [(''filePath'', Some fp)]
       (case findDocument s fp of
          None \<Rightarrow> s\<lparr>documents := butlast (documents s),
                      detached := detached s @ (if documents s = [] then [] else [last (documents s)])\<rparr>
        | Some doc \<Rightarrow> removeDocument fp s)"

text \<open>
  The requests of the class and the step of the watcher. The handlers that are not
  embedded one by one (\<^verbatim>\<open>splitLeaf\<close>, \<^verbatim>\<open>sortOpenFiles\<close>, \<^verbatim>\<open>setActiveFile\<close>,
  \<^verbatim>\<open>navigateForward\<close>, \<^verbatim>\<open>navigateBack\<close>, \<^verbatim>\<open>set-branch-sizes\<close>) reach the
  window map only through the tree object stored under one identifier, which they
  mutate in place; \<open>MutateTree\<close> stands for any of them, with the calls it issues.
\<close>

datatype request =
  NewWindow "string list" string
  | CloseWindow string
  | OpenFile bool string "string option" string "bool option"
  | CloseFile consent io_result string string string
  | CloseFileEverywhere string
  | HasMovedFile string string
  | HasMovedDir string string
  | SaveFileBegin string
  | SaveFileFinish io_result doc_type string
  | PushUpdates string nat "update list"
  | WatcherEvent string string
  | SetPinnedStatus string string string bool
  | CloseLeaf string string
  | MoveFile string string string string string
  | NotifyRemoteChange string
  | WatcherRegistered "(string \<times> string list) list"
  | MutateTree string "node \<Rightarrow> node" "effect list"

fun exec ::
  "(string \<Rightarrow> int) \<Rightarrow> (string \<Rightarrow> int) \<Rightarrow>
     (string \<Rightarrow> Document list \<Rightarrow> Document list \<times> effect list) \<Rightarrow> request \<Rightarrow> manager \<Rightarrow> manager" where
  "exec cw cc hrc (NewWindow draws lid) s = (case newWindow draws lid s of None \<Rightarrow> s | Some s' \<Rightarrow> s')"
| "exec cw cc hrc (CloseWindow w) s = closeWindow w s"
| "exec cw cc hrc (OpenFile avoid w l fp newTab) s = snd (openFile avoid w l fp newTab s)"
| "exec cw cc hrc (CloseFile response io w l fp) s = snd (closeFile cw cc response io w l fp s)"
| "exec cw cc hrc (CloseFileEverywhere fp) s = closeFileEverywhere fp s"
| "exec cw cc hrc (HasMovedFile old new) s = hasMovedFile old new s"
| "exec cw cc hrc (HasMovedDir old new) s = hasMovedDir old new s"
| "exec cw cc hrc (SaveFileBegin fp) s = snd (saveFile_begin cw cc fp s)"
| "exec cw cc hrc (SaveFileFinish io ty fp) s = snd (saveFile_finish io ty fp s)"
| "exec cw cc hrc (PushUpdates fp v ups) s = snd (pushUpdates fp v ups s)"
| "exec cw cc hrc (WatcherEvent ev fp) s = onWatcherEvent hrc ev fp s"
| "exec cw cc hrc (SetPinnedStatus w l fp b) s = snd (setPinnedStatus w l fp b s)"
| "exec cw cc hrc (CloseLeaf w l) s = snd (closeLeaf w l s)"
| "exec cw cc hrc (MoveFile ow tw ol tleaf fp) s = snd (moveFile ow tw ol tleaf fp s)"
| "exec cw cc hrc (NotifyRemoteChange fp) s = notifyRemoteChange fp s"
| "exec cw cc hrc (WatcherRegistered listed) s = watcherRegistered listed s"
| "exec cw cc hrc (MutateTree w g evs) s = (updateWindow w g s)\<lparr>effects := effects s @ evs\<rparr>"

section \<open>A sample state\<close>

text \<open>
  Two windows. The first is split into two panes; \<^verbatim>\<open>/a.md\<close> is open in one pane
  only and has unsaved changes, \<^verbatim>\<open>/b.md\<close> is open and pinned in both windows,
  \<^verbatim>\<open>/c.md\<close> is open in one pane only, has unsaved changes and is not pinned. The
  watcher lists \<^verbatim>\<open>/old.md\<close> and \<^verbatim>\<open>/b.md\<close>.
\<close>

definition exLeaf1 :: leaf where
  "exLeaf1 = \<lparr>leafId = ''l1'',
     tabMan = \<lparr>openFiles = [\<lparr>path = ''/a.md''\<rparr>, \<lparr>path = ''/b.md''\<rparr>],
               activeFile = Some ''/a.md'', pinnedPaths = {''/b.md''}\<rparr>\<rparr>"

definition exLeaf2 :: leaf where
  "exLeaf2 = \<lparr>leafId = ''l2'',
     tabMan = \<lparr>openFiles = [\<lparr>path = ''/c.md''\<rparr>], activeFile = Some ''/c.md'',
               pinnedPaths = {}\<rparr>\<rparr>"

definition exLeaf3 :: leaf where
  "exLeaf3 = \<lparr>leafId = ''l3'',
     tabMan = \<lparr>openFiles = [\<lparr>path = ''/b.md''\<rparr>], activeFile = Some ''/b.md'',
               pinnedPaths = {''/b.md''}\<rparr>\<rparr>"

definition exDoc :: "string \<Rightarrow> nat \<Rightarrow> nat \<Rightarrow> Document" where
  "exDoc p cur saved =
     \<lparr>filePath = p, descriptor = \<lparr>dpath = p, dtype = MDFile\<rparr>, document = ''text'',
      currentVersion = cur, lastSavedVersion = saved, updates = [], saveTimeout = None,
      lastSavedWordCount = 1, lastSavedCharCount = 4\<rparr>"

definition exState :: manager where
  "exState =
     \<lparr>windows = [(''w1'', Branch ''b1'' Horizontal [Leaf exLeaf1, Leaf exLeaf2]),
                 (''w2'', Leaf exLeaf3)],
      documents = [exDoc ''/a.md'' 3 1, exDoc ''/b.md'' 2 2, exDoc ''/c.md'' 5 4],
      detached = [], ignoreChanges = [], watched = [(''/'', [''old.md'', ''b.md''])],
      pendingAdds = [], shuttingDown = False, effects = []\<rparr>"



definition exUpdate :: update where
  "exUpdate = \<lparr>changes = [Insert 0 ''x''], clientID = ''c1''\<rparr>"

definition exCount :: "string \<Rightarrow> int" where
  "exCount txt = int (length txt)"

definition exReconcile :: "string \<Rightarrow> Document list \<Rightarrow> Document list \<times> effect list" where
  "exReconcile fp docs =
     (removeFirst (\<lambda>d. filePath d = fp) docs, [Broadcast FILE_REMOTELY_CHANGED [(''filePath'', Some fp)]])"

text \<open>
  One window with one pane. \<^verbatim>\<open>/a/b/x.md\<close> lies in the directory
  \<^verbatim>\<open>/a/b\<close>; \<^verbatim>\<open>/a/bc.md\<close> only shares the prefix. Both are saved and not
  pinned.
\<close>

definition exMoveState :: manager where
  "exMoveState =
     \<lparr>windows = [(''w1'', Leaf \<lparr>leafId = ''l1'',
                   tabMan = \<lparr>openFiles = [\<lparr>path = ''/a/b/x.md''\<rparr>, \<lparr>path = ''/a/bc.md''\<rparr>],
                             activeFile = Some ''/a/b/x.md'', pinnedPaths = {}\<rparr>\<rparr>)],
      documents = [exDoc ''/a/b/x.md'' 1 1, exDoc ''/a/bc.md'' 1 1, exDoc ''/z.md'' 0 0],
      detached = [], ignoreChanges = [],
      watched = [(''/a/b'', [''x.md'']), (''/a'', [''bc.md''])],
      pendingAdds = [], shuttingDown = False, effects = []\<rparr>"

section \<open>Frame facts\<close>

lemma emit_simps:
  "windows (emit e s) = windows s" "documents (emit e s) = documents s"
  "ignoreChanges (emit e s) = ignoreChanges s" "watched (emit e s) = watched s"
  "shuttingDown (emit e s) = shuttingDown s" "effects (emit e s) = effects s @ [e]"
  "detached (emit e s) = detached s" "pendingAdds (emit e s) = pendingAdds s"
  by (simp_all add: emit_def)

lemma broadcastEvent_simps:
  "windows (broadcastEvent ev c s) = windows s" "documents (broadcastEvent ev c s) = documents s"
  "ignoreChanges (broadcastEvent ev c s) = ignoreChanges s"
  "watched (broadcastEvent ev c s) = watched s"
  "detached (broadcastEvent ev c s) = detached s"
  "pendingAdds (broadcastEvent ev c s) = pendingAdds s"
  by (simp_all add: broadcastEvent_def emit_simps)

lemma syncToConfig_simps:
  "windows (syncToConfig s) = windows s" "documents (syncToConfig s) = documents s"
  "ignoreChanges (syncToConfig s) = ignoreChanges s" "watched (syncToConfig s) = watched s"
  "detached (syncToConfig s) = detached s" "pendingAdds (syncToConfig s) = pendingAdds s"
  by (simp_all add: syncToConfig_def emit_simps)

lemma updateWindow_simps:
  "documents (updateWindow w g s) = documents s"
  "ignoreChanges (updateWindow w g s) = ignoreChanges s"
  "detached (updateWindow w g s) = detached s"
  "map fst (windows (updateWindow w g s)) = map fst (windows s)"
  by (simp_all add: updateWindow_def case_prod_unfold if_distrib [of fst] cong: if_cong)

lemma findDocument_cong: "documents s = documents s' \<Longrightarrow> findDocument s p = findDocument s' p"
  by (simp add: findDocument_def)

lemma isModified_cong: "documents s = documents s' \<Longrightarrow> isModified s p = isModified s' p"
  by (simp add: isModified_def findDocument_def)

section \<open>The watch set is reconciled only once the watcher has caught up\<close>

lemma fold_cond_id:
  "(\<And>x. x \<in> set xs \<Longrightarrow> \<not> P x) \<Longrightarrow> fold (\<lambda>x st. if P x then f x st else st) xs s = s"
  by (induction xs arbitrary: s) auto

lemma unwatch_fold_frame:
  "windows (fold (\<lambda>w st. if w \<notin> Op then watcher_unwatch w st else st) ws s) = windows s"
  "documents (fold (\<lambda>w st. if w \<notin> Op then watcher_unwatch w st else st) ws s) = documents s"
  "ignoreChanges (fold (\<lambda>w st. if w \<notin> Op then watcher_unwatch w st else st) ws s) = ignoreChanges s"
  "detached (fold (\<lambda>w st. if w \<notin> Op then watcher_unwatch w st else st) ws s) = detached s"
  by (induction ws arbitrary: s) (simp_all add: watcher_unwatch_def emit_def)

lemma add_fold_frame:
  "windows (fold (\<lambda>p st. if p \<notin> Wd then watcher_add p st else st) ps s) = windows s"
  "documents (fold (\<lambda>p st. if p \<notin> Wd then watcher_add p st else st) ps s) = documents s"
  "ignoreChanges (fold (\<lambda>p st. if p \<notin> Wd then watcher_add p st else st) ps s) = ignoreChanges s"
  "detached (fold (\<lambda>p st. if p \<notin> Wd then watcher_add p st else st) ps s) = detached s"
  "watched (fold (\<lambda>p st. if p \<notin> Wd then watcher_add p st else st) ps s) = watched s"
  by (induction ps arbitrary: s) (simp_all add: watcher_add_def emit_def)

lemma getOpenFiles_cong: "windows s = windows s' \<Longrightarrow> getOpenFiles s = getOpenFiles s'"
  by (simp add: getOpenFiles_def)

lemma syncWatchedFilePaths_simps:
  "windows (syncWatchedFilePaths s) = windows s"
  "documents (syncWatchedFilePaths s) = documents s"
  "ignoreChanges (syncWatchedFilePaths s) = ignoreChanges s"
  "detached (syncWatchedFilePaths s) = detached s"
  by (simp_all add: syncWatchedFilePaths_def Let_def add_fold_frame unwatch_fold_frame)

text \<open>
  A run in a state in which the watcher lists exactly the open paths calls neither
  \<^verbatim>\<open>add\<close> nor \<^verbatim>\<open>unwatch\<close>.
\<close>

lemma sync_fixpoint:
  assumes "set (getWatchedFiles s) = set (getOpenFiles s)"
  shows "syncWatchedFilePaths s = s"
proof -
  have 1: "fold (\<lambda>watchedFile st. if watchedFile \<notin> set (getOpenFiles s)
             then watcher_unwatch watchedFile st else st) (getWatchedFiles s) s = s"
    by (rule fold_cond_id) (simp add: assms [symmetric])
  have 2: "fold (\<lambda>openFile st. if openFile \<notin> set (getWatchedFiles s)
             then watcher_add openFile st else st) (getOpenFiles s) s = s"
    by (rule fold_cond_id) (simp add: assms)
  show ?thesis
    unfolding syncWatchedFilePaths_def Let_def 1 2 ..
qed

text \<open>
  A run never makes the watcher list a path that it did not list before: the paths it
  adds are pending.
\<close>

lemma unwatch_fold_listed:
  "set (getWatchedFiles (fold (\<lambda>w st. if w \<notin> Op then watcher_unwatch w st else st) ws s))
     \<subseteq> set (getWatchedFiles s)"
proof (induction ws arbitrary: s)
  case Nil
  then show ?case by simp
next
  case (Cons w ws)
  have "set (getWatchedFiles (watcher_unwatch w s)) \<subseteq> set (getWatchedFiles s)"
    by (auto simp: getWatchedFiles_def watcher_unwatch_def emit_def)
  then show ?case
    using Cons.IH [of "watcher_unwatch w s"] Cons.IH [of s] by auto
qed

lemma sync_listed: "set (getWatchedFiles (syncWatchedFilePaths s)) \<subseteq> set (getWatchedFiles s)"
proof -
  have "getWatchedFiles (fold (\<lambda>p st. if p \<notin> Wd then watcher_add p st else st) ps t)
          = getWatchedFiles t" for Wd ps t
    by (simp add: getWatchedFiles_def add_fold_frame)
  then show ?thesis
    by (simp add: syncWatchedFilePaths_def Let_def unwatch_fold_listed)
qed

lemma set_uniq_aux:
  "set (fold (\<lambda>x acc. if x \<in> set acc then acc else acc @ [x]) xs acc) = set acc \<union> set xs"
  by (induction xs arbitrary: acc) auto

lemma distinct_uniq_aux:
  "distinct acc \<Longrightarrow> distinct (fold (\<lambda>x acc. if x \<in> set acc then acc else acc @ [x]) xs acc)"
  by (induction xs arbitrary: acc) auto

lemma set_getOpenFiles:
  "set (getOpenFiles s) = (\<Union>lf \<in> set (allLeafs s). set (openPaths (tabMan lf)))"
  by (auto simp: getOpenFiles_def uniq_def set_uniq_aux allLeafs_def)

lemma distinct_getOpenFiles: "distinct (getOpenFiles s)"
  by (simp add: getOpenFiles_def uniq_def distinct_uniq_aux)

lemma exState_getOpenFiles: "getOpenFiles exState = [''/a.md'', ''/b.md'', ''/c.md'']"
  by (simp add: getOpenFiles_def uniq_def exState_def exLeaf1_def exLeaf2_def exLeaf3_def
      openPaths_def)

lemma exState_getWatchedFiles: "getWatchedFiles exState = [''/old.md'', ''/b.md'']"
  by (simp add: getWatchedFiles_def exState_def pathJoin_def)

lemma exState_sync:
  "syncWatchedFilePaths exState =
     exState\<lparr>watched := [(''/'', [''b.md''])], pendingAdds := [''/a.md'', ''/c.md''],
             effects := [WatcherUnwatch ''/old.md'', WatcherAdd ''/a.md'', WatcherAdd ''/c.md'']\<rparr>"
  by (simp add: syncWatchedFilePaths_def Let_def exState_getOpenFiles exState_getWatchedFiles)
     (simp add: exState_def watcher_unwatch_def watcher_add_def emit_def pathJoin_def)

lemma exMoveState_getOpenFiles: "getOpenFiles exMoveState = [''/a/b/x.md'', ''/a/bc.md'']"
  by (simp add: getOpenFiles_def uniq_def exMoveState_def openPaths_def)

text \<open>
  C6. A second run is not free of calls to the watcher, and the paths under watch
  after a run are not the open paths. In the sample state the panes hold \<^verbatim>\<open>/a.md\<close>,
  \<^verbatim>\<open>/b.md\<close> and \<^verbatim>\<open>/c.md\<close>, and the watcher lists \<^verbatim>\<open>/old.md\<close> and
  \<^verbatim>\<open>/b.md\<close>. A run of \<^verbatim>\<open>syncWatchedFilePaths\<close> calls \<^verbatim>\<open>unwatch\<close> for
  \<^verbatim>\<open>/old.md\<close> and \<^verbatim>\<open>add\<close> for \<^verbatim>\<open>/a.md\<close> and \<^verbatim>\<open>/c.md\<close>. After the
  run the watcher lists \<^verbatim>\<open>/b.md\<close> alone, which is not the set of open paths: the
  two paths added are pending. A second run right after the first, with no change of
  the tree in between, calls \<^verbatim>\<open>add\<close> for \<^verbatim>\<open>/a.md\<close> and \<^verbatim>\<open>/c.md\<close> again.
  And when the watcher has caught up and lists, for an open file that does not exist, the
  directory of the file, every run calls \<^verbatim>\<open>unwatch\<close> for the directory and
  \<^verbatim>\<open>add\<close> for the file.
\<close>

theorem syncWatchedFilePaths_second_run_adds_again:
  "getOpenFiles exState = [''/a.md'', ''/b.md'', ''/c.md''] \<and>
   getWatchedFiles exState = [''/old.md'', ''/b.md''] \<and>
   effects exState = [] \<and>
   effects (syncWatchedFilePaths exState) =
     [WatcherUnwatch ''/old.md'', WatcherAdd ''/a.md'', WatcherAdd ''/c.md''] \<and>
   windows (syncWatchedFilePaths exState) = windows exState \<and>
   getOpenFiles (syncWatchedFilePaths exState) = [''/a.md'', ''/b.md'', ''/c.md''] \<and>
   getWatchedFiles (syncWatchedFilePaths exState) = [''/b.md''] \<and>
   pendingAdds (syncWatchedFilePaths exState) = [''/a.md'', ''/c.md''] \<and>
   effects (syncWatchedFilePaths (syncWatchedFilePaths exState)) =
     [WatcherUnwatch ''/old.md'', WatcherAdd ''/a.md'', WatcherAdd ''/c.md'',
      WatcherAdd ''/a.md'', WatcherAdd ''/c.md''] \<and>
   getOpenFiles exMoveState = [''/a/b/x.md'', ''/a/bc.md''] \<and>
   effects (syncWatchedFilePaths
             (watcherRegistered [(''/a'', [''b'', ''bc.md'']), (''/a/b'', [])] exMoveState)) =
     [WatcherUnwatch ''/a/b'', WatcherAdd ''/a/b/x.md''] \<and>
   effects (syncWatchedFilePaths
             (watcherRegistered [(''/a'', [''b'', ''bc.md'']), (''/a/b'', [])]
               (syncWatchedFilePaths
                 (watcherRegistered [(''/a'', [''b'', ''bc.md'']), (''/a/b'', [])] exMoveState)))) =
     [WatcherUnwatch ''/a/b'', WatcherAdd ''/a/b/x.md'',
      WatcherUnwatch ''/a/b'', WatcherAdd ''/a/b/x.md'']"
proof -
  let ?s1 = "exState\<lparr>watched := [(''/'', [''b.md''])], pendingAdds := [''/a.md'', ''/c.md''],
             effects := [WatcherUnwatch ''/old.md'', WatcherAdd ''/a.md'', WatcherAdd ''/c.md'']\<rparr>"
  have o1: "getOpenFiles ?s1 = [''/a.md'', ''/b.md'', ''/c.md'']"
    using getOpenFiles_cong [of ?s1 exState] by (simp add: exState_getOpenFiles)
  have w1: "getWatchedFiles ?s1 = [''/b.md'']"
    by (simp add: getWatchedFiles_def pathJoin_def)
  have second: "effects (syncWatchedFilePaths ?s1) =
     [WatcherUnwatch ''/old.md'', WatcherAdd ''/a.md'', WatcherAdd ''/c.md'',
      WatcherAdd ''/a.md'', WatcherAdd ''/c.md'']"
    unfolding syncWatchedFilePaths_def Let_def o1 w1
    by (simp add: watcher_add_def emit_def)
  let ?l = "[(''/a'', [''b'', ''bc.md'']), (''/a/b'', [])]"
  let ?m0 = "watcherRegistered ?l exMoveState"
  have om: "getOpenFiles t = [''/a/b/x.md'', ''/a/bc.md'']" if "windows t = windows exMoveState" for t
    using getOpenFiles_cong [OF that] by (simp add: exMoveState_getOpenFiles)
  have wm: "getWatchedFiles (watcherRegistered ?l t) = [''/a/b'', ''/a/bc.md'']" for t
    by (simp add: getWatchedFiles_def watcherRegistered_def pathJoin_def)
  have run: "effects (syncWatchedFilePaths (watcherRegistered ?l t)) =
      effects t @ [WatcherUnwatch ''/a/b'', WatcherAdd ''/a/b/x.md'']"
    if "windows t = windows exMoveState" for t
  proof -
    have "getOpenFiles (watcherRegistered ?l t) = [''/a/b/x.md'', ''/a/bc.md'']"
      by (rule om) (simp add: watcherRegistered_def that)
    then show ?thesis
      unfolding syncWatchedFilePaths_def Let_def wm
      by (simp add: watcher_add_def watcher_unwatch_def emit_def watcherRegistered_def)
  qed
  have m1: "effects (syncWatchedFilePaths ?m0) = [WatcherUnwatch ''/a/b'', WatcherAdd ''/a/b/x.md'']"
    using run [of exMoveState] by (simp add: exMoveState_def)
  have "windows (syncWatchedFilePaths ?m0) = windows exMoveState"
    by (simp add: syncWatchedFilePaths_simps watcherRegistered_def)
  from run [OF this]
  have m2: "effects (syncWatchedFilePaths (watcherRegistered ?l (syncWatchedFilePaths ?m0))) =
     [WatcherUnwatch ''/a/b'', WatcherAdd ''/a/b/x.md'',
      WatcherUnwatch ''/a/b'', WatcherAdd ''/a/b/x.md'']"
    by (simp add: m1)
  have e0: "effects exState = []"
    by (simp add: exState_def)
  show ?thesis
    unfolding exState_sync
    using second o1 w1 m1 m2 e0
    by (simp add: exState_getOpenFiles exState_getWatchedFiles exMoveState_getOpenFiles)
qed

section \<open>Pushing updates\<close>

lemma find_updateFirst:
  "(\<And>x. P x \<Longrightarrow> P (g x)) \<Longrightarrow> find P (updateFirst P g xs) = map_option g (find P xs)"
  by (induction xs) auto

lemma length_updateFirst: "length (updateFirst P g xs) = length xs"
  by (induction xs) auto

lemma fold_acceptUpdate:
  "filePath (fold acceptUpdate ups doc) = filePath doc"
  "currentVersion (fold acceptUpdate ups doc) = currentVersion doc + length ups"
  "lastSavedVersion (fold acceptUpdate ups doc) = lastSavedVersion doc"
  "document (fold acceptUpdate ups doc) = fold applyUpdate ups (document doc)"
  "map snd (updates (fold acceptUpdate ups doc)) = map snd (updates doc) @ ups"
  by (induction ups arbitrary: doc) (simp_all add: acceptUpdate_def)

lemma find_filePath: "find (\<lambda>d. filePath d = p) xs = Some doc \<Longrightarrow> filePath doc = p"
  by (induction xs) (auto split: if_splits)

lemma findDocument_path: "findDocument s p = Some doc \<Longrightarrow> filePath doc = p"
  unfolding findDocument_def by (rule find_filePath)

lemma pushUpdates_stale:
  "findDocument s p = Some doc \<Longrightarrow> baseVersion \<noteq> currentVersion doc \<Longrightarrow>
     pushUpdates p baseVersion ups s = (Inl StaleBase, s)"
  by (simp add: pushUpdates_def)

lemma pushUpdates_accept:
  assumes "findDocument s p = Some doc"
  shows "fst (pushUpdates p (currentVersion doc) ups s) = Inr (currentVersion doc + length ups)"
    and "findDocument (snd (pushUpdates p (currentVersion doc) ups s)) p
           = Some (fold acceptUpdate ups doc)"
    and "windows (snd (pushUpdates p (currentVersion doc) ups s)) = windows s"
    and "ignoreChanges (snd (pushUpdates p (currentVersion doc) ups s)) = ignoreChanges s"
proof -
  have fp: "filePath doc = p" using assms by (rule findDocument_path)
  show "fst (pushUpdates p (currentVersion doc) ups s) = Inr (currentVersion doc + length ups)"
    using assms by (simp add: pushUpdates_def Let_def fold_acceptUpdate)
  show "findDocument (snd (pushUpdates p (currentVersion doc) ups s)) p
           = Some (fold acceptUpdate ups doc)"
    using assms fp
    by (simp add: pushUpdates_def Let_def findDocument_def find_updateFirst fold_acceptUpdate)
  show "windows (snd (pushUpdates p (currentVersion doc) ups s)) = windows s"
    using assms by (simp add: pushUpdates_def Let_def)
  show "ignoreChanges (snd (pushUpdates p (currentVersion doc) ups s)) = ignoreChanges s"
    using assms by (simp add: pushUpdates_def Let_def)
qed

text \<open>
  C1. For a path with a tracked document: a call of \<^verbatim>\<open>pushUpdates\<close> whose base
  version differs from the current version of the document fails with
  \<^verbatim>\<open>StaleBase\<close> and returns the state it was given, so the text, the version and
  the backlog of the document are as before. A call with the current version as base
  succeeds and returns the current version plus the number of updates; afterwards the
  document has that version, its text is the old text with the updates applied in order,
  the updates are appended to its backlog, and the saved version is untouched.
\<close>

theorem pushUpdates_versioning:
  assumes "findDocument s p = Some doc"
  shows "(baseVersion \<noteq> currentVersion doc \<longrightarrow>
            pushUpdates p baseVersion ups s = (Inl StaleBase, s)) \<and>
         (baseVersion = currentVersion doc \<longrightarrow>
            (\<exists>doc'. fst (pushUpdates p baseVersion ups s) = Inr (currentVersion doc + length ups) \<and>
               findDocument (snd (pushUpdates p baseVersion ups s)) p = Some doc' \<and>
               currentVersion doc' = currentVersion doc + length ups \<and>
               document doc' = fold applyUpdate ups (document doc) \<and>
               map snd (updates doc') = map snd (updates doc) @ ups \<and>
               lastSavedVersion doc' = lastSavedVersion doc))"
  using assms
  by (auto simp: pushUpdates_stale pushUpdates_accept fold_acceptUpdate)

lemma exState_findA: "findDocument exState ''/a.md'' = Some (exDoc ''/a.md'' 3 1)"
  by (simp add: findDocument_def exState_def exDoc_def)

theorem pushUpdates_versioning_witness:
  "pushUpdates ''/a.md'' 2 [exUpdate, exUpdate] exState = (Inl StaleBase, exState) \<and>
   fst (pushUpdates ''/a.md'' 3 [exUpdate, exUpdate] exState) = Inr 5"
  using pushUpdates_versioning [OF exState_findA, of 2 "[exUpdate, exUpdate]"]
        pushUpdates_versioning [OF exState_findA, of 3 "[exUpdate, exUpdate]"]
  by (simp add: exDoc_def)


section \<open>Saving advances the saved version before the write\<close>

lemma saveFile_begin_found:
  assumes "findDocument s p = Some doc"
  shows "fst (saveFile_begin cw cc p s) = Some (dtype (descriptor doc), document doc)"
    and "\<exists>doc1. findDocument (snd (saveFile_begin cw cc p s)) p = Some doc1 \<and>
           lastSavedVersion doc1 = currentVersion doc \<and>
           currentVersion doc1 = currentVersion doc \<and> document doc1 = document doc"
    and "windows (snd (saveFile_begin cw cc p s)) = windows s"
    and "ignoreChanges (snd (saveFile_begin cw cc p s)) = ignoreChanges s @ [p]"
    and "\<exists>evs. effects (snd (saveFile_begin cw cc p s)) =
           effects s @ evs @ [FSALSave (dtype (descriptor doc)) (dpath (descriptor doc)) (document doc)]"
proof -
  have fp: "filePath doc = p" using assms by (rule findDocument_path)
  have f: "find (\<lambda>d. filePath d = p) (documents s) = Some doc"
    using assms by (simp add: findDocument_def)
  show "fst (saveFile_begin cw cc p s) = Some (dtype (descriptor doc), document doc)"
    using assms by (simp add: saveFile_begin_def Let_def)
  show "\<exists>doc1. findDocument (snd (saveFile_begin cw cc p s)) p = Some doc1 \<and>
           lastSavedVersion doc1 = currentVersion doc \<and>
           currentVersion doc1 = currentVersion doc \<and> document doc1 = document doc"
    using assms fp f
    by (simp add: saveFile_begin_def Let_def findDocument_def find_updateFirst emit_simps
        split: option.split)
  show "windows (snd (saveFile_begin cw cc p s)) = windows s"
    using assms by (simp add: saveFile_begin_def Let_def emit_simps split: option.split)
  show "ignoreChanges (snd (saveFile_begin cw cc p s)) = ignoreChanges s @ [p]"
    using assms by (simp add: saveFile_begin_def Let_def emit_simps split: option.split)
  show "\<exists>evs. effects (snd (saveFile_begin cw cc p s)) =
           effects s @ evs @ [FSALSave (dtype (descriptor doc)) (dpath (descriptor doc)) (document doc)]"
    using assms by (simp add: saveFile_begin_def Let_def emit_simps split: option.split)
qed

lemma saveFile_finish_documents: "documents (snd (saveFile_finish io ty p s)) = documents s"
  by (simp add: saveFile_finish_def Let_def broadcastEvent_simps emit_simps split: io_result.split)

lemma saveFile_finish_windows: "windows (snd (saveFile_finish io ty p s)) = windows s"
  by (simp add: saveFile_finish_def Let_def broadcastEvent_simps emit_simps split: io_result.split)

lemma isModified_iff:
  "findDocument s p = Some doc \<Longrightarrow> isModified s p = (lastSavedVersion doc \<noteq> currentVersion doc)"
  by (simp add: isModified_def)

text \<open>
  C2. When \<^verbatim>\<open>saveFile\<close> is called for a tracked document, the content handed to
  the I/O collaborator is the text of the document at the call, and in the state in
  which the write has been issued and has not yet returned the saved version already is
  the current version read together with that text. A write that fails leaves this state
  as it is: the saved version is not taken back and the document counts as unmodified.
  When updates are pushed while the write is in flight, the document counts as modified,
  and it still does after the write has returned, whatever its outcome.
\<close>

theorem saveFile_advances_before_write:
  assumes "findDocument s p = Some doc"
  shows "\<exists>ty s1 doc1.
           saveFile_begin cw cc p s = (Some (ty, document doc), s1) \<and>
           (\<exists>evs. effects s1 = effects s @ evs @ [FSALSave ty (dpath (descriptor doc)) (document doc)]) \<and>
           findDocument s1 p = Some doc1 \<and>
           lastSavedVersion doc1 = currentVersion doc \<and>
           currentVersion doc1 = currentVersion doc \<and>
           saveFile_finish WriteFailed ty p s1 = (Inl IOFailure, s1) \<and>
           \<not> isModified s1 p \<and>
           (\<forall>ups io. ups \<noteq> [] \<longrightarrow>
              fst (pushUpdates p (currentVersion doc) ups s1) = Inr (currentVersion doc + length ups) \<and>
              isModified (snd (pushUpdates p (currentVersion doc) ups s1)) p \<and>
              isModified (snd (saveFile_finish io ty p (snd (pushUpdates p (currentVersion doc) ups s1)))) p)"
proof -
  let ?r = "saveFile_begin cw cc p s"
  obtain doc1 where d1: "findDocument (snd ?r) p = Some doc1"
      "lastSavedVersion doc1 = currentVersion doc" "currentVersion doc1 = currentVersion doc"
    using saveFile_begin_found(2) [OF assms] by blast
  have r: "?r = (Some (dtype (descriptor doc), document doc), snd ?r)"
    using saveFile_begin_found(1) [OF assms, of cw cc] by (cases ?r) simp
  have nm: "\<not> isModified (snd ?r) p"
    using d1 by (simp add: isModified_iff)
  have push: "fst (pushUpdates p (currentVersion doc) ups (snd ?r)) = Inr (currentVersion doc + length ups) \<and>
      isModified (snd (pushUpdates p (currentVersion doc) ups (snd ?r))) p \<and>
      isModified (snd (saveFile_finish io (dtype (descriptor doc)) p
                   (snd (pushUpdates p (currentVersion doc) ups (snd ?r))))) p"
    if "ups \<noteq> []" for ups io
  proof -
    let ?s2 = "snd (pushUpdates p (currentVersion doc) ups (snd ?r))"
    have a: "fst (pushUpdates p (currentVersion doc) ups (snd ?r)) = Inr (currentVersion doc + length ups)"
      using pushUpdates_accept(1) [OF d1(1), of ups] d1(3) by simp
    have b: "findDocument ?s2 p = Some (fold acceptUpdate ups doc1)"
      using pushUpdates_accept(2) [OF d1(1), of ups] d1(3) by simp
    have c: "isModified ?s2 p"
      using that d1 by (simp add: isModified_iff [OF b] fold_acceptUpdate)
    have "isModified (snd (saveFile_finish io (dtype (descriptor doc)) p ?s2)) p = isModified ?s2 p"
      by (rule isModified_cong) (rule saveFile_finish_documents)
    with a c show ?thesis by simp
  qed
  show ?thesis
    apply (rule exI [of _ "dtype (descriptor doc)"])
    apply (rule exI [of _ "snd ?r"])
    apply (rule exI [of _ doc1])
    using r d1 nm push saveFile_begin_found(5) [OF assms, of cw cc]
    by (simp add: saveFile_finish_def)
qed

theorem saveFile_advances_before_write_witness:
  "isModified exState ''/a.md'' \<and>
   \<not> isModified (snd (saveFile_begin exCount exCount ''/a.md'' exState)) ''/a.md'' \<and>
   isModified (snd (saveFile_finish WriteOk MDFile ''/a.md''
      (snd (pushUpdates ''/a.md'' 3 [exUpdate]
         (snd (saveFile_begin exCount exCount ''/a.md'' exState)))))) ''/a.md''"
proof -
  have m: "isModified exState ''/a.md''"
    by (simp add: isModified_iff [OF exState_findA] exDoc_def)
  from saveFile_advances_before_write [OF exState_findA, of exCount exCount]
  obtain ty s1 doc1 where
    b: "saveFile_begin exCount exCount ''/a.md'' exState = (Some (ty, document (exDoc ''/a.md'' 3 1)), s1)"
    and d: "findDocument s1 ''/a.md'' = Some doc1"
    and n: "\<not> isModified s1 ''/a.md''"
    and u: "\<forall>ups io. ups \<noteq> [] \<longrightarrow>
              fst (pushUpdates ''/a.md'' (currentVersion (exDoc ''/a.md'' 3 1)) ups s1)
                = Inr (currentVersion (exDoc ''/a.md'' 3 1) + length ups) \<and>
              isModified (snd (pushUpdates ''/a.md'' (currentVersion (exDoc ''/a.md'' 3 1)) ups s1)) ''/a.md'' \<and>
              isModified (snd (saveFile_finish io ty ''/a.md''
                (snd (pushUpdates ''/a.md'' (currentVersion (exDoc ''/a.md'' 3 1)) ups s1)))) ''/a.md''"
    by blast
  have ty: "ty = MDFile"
    using b saveFile_begin_found(1) [OF exState_findA, of exCount exCount]
    by (simp add: exDoc_def)
  have cv: "currentVersion (exDoc ''/a.md'' 3 1) = 3" by (simp add: exDoc_def)
  from u [rule_format, of "[exUpdate]" WriteOk] m n b ty cv show ?thesis by simp
qed


section \<open>Cancelling a close\<close>

lemma isModified_tracked: "isModified s p \<Longrightarrow> findDocument s p \<noteq> None"
  by (auto simp: isModified_def split: option.splits)

text \<open>
  C3. When the leaf exists, exactly one leaf of all windows has \<^verbatim>\<open>path\<close> open, the
  document is modified and the user answers Cancel, \<^verbatim>\<open>closeFile\<close> returns
  \<^verbatim>\<open>false\<close> and the state is the one it was called in, but for the record that the
  user was asked: the window map with all tabs, the tracked documents with their
  versions, the ignore list and the watch list are unchanged, and the document is still
  modified.
\<close>

theorem closeFile_cancel_no_mutation:
  assumes "lookupWindow s w = Some tree" and "findLeaf l tree = Some lf"
    and "numOpenInstances s p = 1" and "isModified s p"
  shows "closeFile cw cc Cancel io w l p s = (Inr False, emit AskSaveChanges s) \<and>
         windows (snd (closeFile cw cc Cancel io w l p s)) = windows s \<and>
         documents (snd (closeFile cw cc Cancel io w l p s)) = documents s \<and>
         ignoreChanges (snd (closeFile cw cc Cancel io w l p s)) = ignoreChanges s \<and>
         watched (snd (closeFile cw cc Cancel io w l p s)) = watched s \<and>
         effects (snd (closeFile cw cc Cancel io w l p s)) = effects s @ [AskSaveChanges] \<and>
         isModified (snd (closeFile cw cc Cancel io w l p s)) p"
proof -
  have r: "closeFile cw cc Cancel io w l p s = (Inr False, emit AskSaveChanges s)"
    using assms isModified_tracked [OF assms(4)]
    by (simp add: closeFile_def Let_def)
  have "isModified (emit AskSaveChanges s) p = isModified s p"
    by (rule isModified_cong) (simp add: emit_simps)
  with r assms(4) show ?thesis by (simp add: emit_simps)
qed

lemma exState_w1:
  "lookupWindow exState ''w1'' = Some (Branch ''b1'' Horizontal [Leaf exLeaf1, Leaf exLeaf2])"
  by (simp add: lookupWindow_def exState_def)

lemma exState_l1:
  "findLeaf ''l1'' (Branch ''b1'' Horizontal [Leaf exLeaf1, Leaf exLeaf2]) = Some exLeaf1"
  by (simp add: findLeaf_def exLeaf1_def)

lemma exState_numA: "numOpenInstances exState ''/a.md'' = 1"
  by (simp add: numOpenInstances_def allLeafs_def exState_def exLeaf1_def exLeaf2_def
      exLeaf3_def openPaths_def)

lemma exState_modA: "isModified exState ''/a.md''"
  by (simp add: isModified_iff [OF exState_findA] exDoc_def)

theorem closeFile_cancel_no_mutation_witness:
  "closeFile exCount exCount Cancel WriteOk ''w1'' ''l1'' ''/a.md'' exState
     = (Inr False, emit AskSaveChanges exState) \<and>
   windows (snd (closeFile exCount exCount Cancel WriteOk ''w1'' ''l1'' ''/a.md'' exState))
     = windows exState"
  using closeFile_cancel_no_mutation [OF exState_w1 exState_l1 exState_numA exState_modA,
          of exCount exCount WriteOk]
  by (simp add: emit_simps)

section \<open>The ignore list\<close>

lemma count_list_remove1:
  "x \<in> set xs \<Longrightarrow> count_list (remove1 x xs) y = (if y = x then count_list xs x - 1 else count_list xs y)"
  by (induction xs) auto

text \<open>
  C7. \<^verbatim>\<open>saveFile\<close> appends the path to the ignore list before it calls the I/O
  collaborator. A watcher event for a path that the ignore list holds is dropped: the
  handler does nothing but take one entry for the path out of the list, which then holds
  one entry fewer for this path and as many as before for any other. An event for a path
  that the list does not hold is processed. So, when the list held no entry for the path
  before the save, the first event after the save is dropped and empties the list of the
  path again, and the second event is processed.
\<close>

theorem ignoreChanges_drop_once:
  "(fp \<in> set (ignoreChanges s) \<longrightarrow>
      onWatcherEvent hrc ev fp s = s\<lparr>ignoreChanges := remove1 fp (ignoreChanges s)\<rparr> \<and>
      Suc (count_list (ignoreChanges (onWatcherEvent hrc ev fp s)) fp) = count_list (ignoreChanges s) fp \<and>
      (\<forall>q. q \<noteq> fp \<longrightarrow>
         count_list (ignoreChanges (onWatcherEvent hrc ev fp s)) q = count_list (ignoreChanges s) q)) \<and>
   (fp \<notin> set (ignoreChanges s) \<longrightarrow> onWatcherEvent hrc ev fp s = processEvent hrc ev fp s) \<and>
   (\<forall>doc. findDocument s fp = Some doc \<longrightarrow>
      ignoreChanges (snd (saveFile_begin cw cc fp s)) = ignoreChanges s @ [fp] \<and>
      (fp \<notin> set (ignoreChanges s) \<longrightarrow>
         onWatcherEvent hrc ev fp (snd (saveFile_begin cw cc fp s))
           = (snd (saveFile_begin cw cc fp s))\<lparr>ignoreChanges := ignoreChanges s\<rparr> \<and>
         onWatcherEvent hrc ev' fp (onWatcherEvent hrc ev fp (snd (saveFile_begin cw cc fp s)))
           = processEvent hrc ev' fp ((snd (saveFile_begin cw cc fp s))\<lparr>ignoreChanges := ignoreChanges s\<rparr>)))"
proof (intro conjI impI allI)
  assume m: "fp \<in> set (ignoreChanges s)"
  show d: "onWatcherEvent hrc ev fp s = s\<lparr>ignoreChanges := remove1 fp (ignoreChanges s)\<rparr>"
    using m by (simp add: onWatcherEvent_def)
  have "0 < count_list (ignoreChanges s) fp"
    using m count_list_0_iff [of "ignoreChanges s" fp] by auto
  then show "Suc (count_list (ignoreChanges (onWatcherEvent hrc ev fp s)) fp)
               = count_list (ignoreChanges s) fp"
    using m by (simp add: d count_list_remove1)
  show "count_list (ignoreChanges (onWatcherEvent hrc ev fp s)) q = count_list (ignoreChanges s) q"
    if "q \<noteq> fp" for q
    using m that by (simp add: d count_list_remove1)
next
  assume "fp \<notin> set (ignoreChanges s)"
  then show "onWatcherEvent hrc ev fp s = processEvent hrc ev fp s"
    by (simp add: onWatcherEvent_def)
next
  fix doc assume f: "findDocument s fp = Some doc"
  show i: "ignoreChanges (snd (saveFile_begin cw cc fp s)) = ignoreChanges s @ [fp]"
    by (rule saveFile_begin_found(4) [OF f])
  assume n: "fp \<notin> set (ignoreChanges s)"
  show e: "onWatcherEvent hrc ev fp (snd (saveFile_begin cw cc fp s))
           = (snd (saveFile_begin cw cc fp s))\<lparr>ignoreChanges := ignoreChanges s\<rparr>"
    using n by (simp add: onWatcherEvent_def i remove1_append)
  show "onWatcherEvent hrc ev' fp (onWatcherEvent hrc ev fp (snd (saveFile_begin cw cc fp s)))
           = processEvent hrc ev' fp ((snd (saveFile_begin cw cc fp s))\<lparr>ignoreChanges := ignoreChanges s\<rparr>)"
    unfolding e using n by (simp add: onWatcherEvent_def)
qed

lemma exState_findB: "findDocument exState ''/b.md'' = Some (exDoc ''/b.md'' 2 2)"
  by (simp add: findDocument_def exState_def exDoc_def)

lemma exState_ignore: "ignoreChanges exState = []"
  by (simp add: exState_def)

theorem ignoreChanges_drop_once_witness:
  "ignoreChanges (snd (saveFile_begin exCount exCount ''/b.md'' exState)) = [''/b.md''] \<and>
   ignoreChanges (onWatcherEvent exReconcile ''change'' ''/b.md''
     (snd (saveFile_begin exCount exCount ''/b.md'' exState))) = [] \<and>
   onWatcherEvent exReconcile ''unlink'' ''/b.md''
     (onWatcherEvent exReconcile ''change'' ''/b.md''
       (snd (saveFile_begin exCount exCount ''/b.md'' exState)))
   = closeFileEverywhere ''/b.md''
       ((snd (saveFile_begin exCount exCount ''/b.md'' exState))\<lparr>ignoreChanges := []\<rparr>)"
proof -
  let ?s1 = "snd (saveFile_begin exCount exCount ''/b.md'' exState)"
  have n: "''/b.md'' \<notin> set (ignoreChanges exState)"
    by (simp add: exState_ignore)
  from ignoreChanges_drop_once [of "''/b.md''" exState exReconcile "''change''" exCount exCount "''unlink''"]
  have "\<forall>doc. findDocument exState ''/b.md'' = Some doc \<longrightarrow>
      ignoreChanges ?s1 = ignoreChanges exState @ [''/b.md''] \<and>
      (''/b.md'' \<notin> set (ignoreChanges exState) \<longrightarrow>
         onWatcherEvent exReconcile ''change'' ''/b.md'' ?s1
           = ?s1\<lparr>ignoreChanges := ignoreChanges exState\<rparr> \<and>
         onWatcherEvent exReconcile ''unlink'' ''/b.md'' (onWatcherEvent exReconcile ''change'' ''/b.md'' ?s1)
           = processEvent exReconcile ''unlink'' ''/b.md'' (?s1\<lparr>ignoreChanges := ignoreChanges exState\<rparr>))"
    by blast
  with exState_findB n have
    a: "ignoreChanges ?s1 = ignoreChanges exState @ [''/b.md'']" and
    b: "onWatcherEvent exReconcile ''change'' ''/b.md'' ?s1 = ?s1\<lparr>ignoreChanges := ignoreChanges exState\<rparr>" and
    c: "onWatcherEvent exReconcile ''unlink'' ''/b.md'' (onWatcherEvent exReconcile ''change'' ''/b.md'' ?s1)
           = processEvent exReconcile ''unlink'' ''/b.md'' (?s1\<lparr>ignoreChanges := ignoreChanges exState\<rparr>)"
    by blast+
  have 1: "ignoreChanges ?s1 = [''/b.md'']" using a by (simp add: exState_ignore)
  have 2: "ignoreChanges (onWatcherEvent exReconcile ''change'' ''/b.md'' ?s1) = []"
    unfolding b by (simp add: exState_ignore)
  have 3: "onWatcherEvent exReconcile ''unlink'' ''/b.md'' (onWatcherEvent exReconcile ''change'' ''/b.md'' ?s1)
             = closeFileEverywhere ''/b.md'' (?s1\<lparr>ignoreChanges := []\<rparr>)"
    unfolding c by (simp add: processEvent_def exState_ignore)
  from 1 2 3 show ?thesis by blast
qed


section \<open>Tabs and trees\<close>

lemma remove1_takeWhile_dropWhile:
  "map h (takeWhile (\<lambda>f. h f \<noteq> p) fs @ tl (dropWhile (\<lambda>f. h f \<noteq> p) fs)) = remove1 p (map h fs)"
  by (induction fs) auto

lemma dropWhile_eq_Nil_path: "(dropWhile (\<lambda>f. path f \<noteq> p) fs = []) = (p \<notin> path ` set fs)"
  by (induction fs) auto

lemma tm_closeFile_fst:
  "fst (tm_closeFile p tm) = (p \<in> set (openPaths tm) \<and> p \<notin> pinnedPaths tm)"
proof (cases "dropWhile (\<lambda>f. path f \<noteq> p) (openFiles tm)")
  case Nil
  then have n: "p \<notin> set (openPaths tm)"
    using dropWhile_eq_Nil_path [of p "openFiles tm"] by (simp add: openPaths_def)
  show ?thesis
    unfolding tm_closeFile_def Let_def Nil using n by simp
next
  case (Cons a after)
  then have n: "p \<in> set (openPaths tm)"
    using dropWhile_eq_Nil_path [of p "openFiles tm"] by (simp add: openPaths_def)
  show ?thesis
    unfolding tm_closeFile_def Let_def Cons using n by simp
qed

lemma tm_closeFile_pinned: "p \<in> pinnedPaths tm \<Longrightarrow> tm_closeFile p tm = (False, tm)"
  by (simp add: tm_closeFile_def Let_def split: list.splits)

lemma tm_closeFile_paths:
  "openPaths (snd (tm_closeFile p tm)) =
     (if p \<in> pinnedPaths tm then openPaths tm else remove1 p (openPaths tm))"
proof (cases "dropWhile (\<lambda>f. path f \<noteq> p) (openFiles tm)")
  case Nil
  then have n: "p \<notin> set (openPaths tm)"
    using dropWhile_eq_Nil_path [of p "openFiles tm"] by (simp add: openPaths_def)
  show ?thesis
    unfolding tm_closeFile_def Let_def Nil using n by (simp add: remove1_idem)
next
  case (Cons a after)
  have "map path (takeWhile (\<lambda>f. path f \<noteq> p) (openFiles tm) @ after) = remove1 p (map path (openFiles tm))"
    using remove1_takeWhile_dropWhile [of path p "openFiles tm"] unfolding Cons by simp
  then show ?thesis
    unfolding tm_closeFile_def Let_def Cons by (simp add: openPaths_def)
qed

lemma tm_closeFile_pinnedPaths: "pinnedPaths (snd (tm_closeFile p tm)) = pinnedPaths tm"
  by (simp add: tm_closeFile_def Let_def split: list.splits)

lemma not_in_remove1_distinct: "distinct xs \<Longrightarrow> p \<notin> set (remove1 p xs)"
  by simp

lemma tm_setPinnedStatus_paths: "openPaths (tm_setPinnedStatus p b tm) = openPaths tm"
  by (simp add: tm_setPinnedStatus_def openPaths_def)

lemma tm_setPinnedStatus_pinnedPaths:
  "pinnedPaths (tm_setPinnedStatus p b tm) = (if b then insert p (pinnedPaths tm) else pinnedPaths tm - {p})"
  by (simp add: tm_setPinnedStatus_def)

lemma forceCloseTab_paths: "openPaths (forceCloseTab p tm) = remove1 p (openPaths tm)"
  by (simp add: forceCloseTab_def tm_closeFile_paths tm_setPinnedStatus_paths
      tm_setPinnedStatus_pinnedPaths remove1_idem)

lemma forceCloseTab_pinnedPaths:
  "pinnedPaths (forceCloseTab p tm) =
     (if p \<in> set (openPaths tm) then pinnedPaths tm - {p} else pinnedPaths tm)"
  by (simp add: forceCloseTab_def tm_closeFile_pinnedPaths tm_setPinnedStatus_pinnedPaths)

lemma forceCloseTab_fst:
  "fst (tm_closeFile p (tm_setPinnedStatus p False tm)) = (p \<in> set (openPaths tm))"
  by (simp add: tm_closeFile_fst tm_setPinnedStatus_paths tm_setPinnedStatus_pinnedPaths)

lemma tm_openFile_new:
  "p \<notin> set (openPaths tm) \<Longrightarrow> fst (tm_openFile p tm)"
  "p \<notin> set (openPaths tm) \<Longrightarrow> openPaths (snd (tm_openFile p tm)) = openPaths tm @ [p]"
  "activeFile (snd (tm_openFile p tm)) = Some p"
  by (simp_all add: tm_openFile_def openPaths_def)

lemma getAllLeafs_mapLeafs: "getAllLeafs (mapLeafs g t) = map g (getAllLeafs t)"
  by (induction t) (simp_all add: map_concat o_def cong: map_cong)

lemma find_map_leafId:
  "(\<And>x. leafId (g x) = leafId x) \<Longrightarrow>
     find (\<lambda>l. leafId l = i) (map g xs) = map_option g (find (\<lambda>l. leafId l = i) xs)"
  by (induction xs) auto

lemma find_leafId: "find (\<lambda>l. leafId l = i) xs = Some lf \<Longrightarrow> leafId lf = i"
  by (induction xs) (auto split: if_splits)

lemma findLeaf_updateLeaf:
  "findLeaf i (updateLeaf i g t) = map_option (\<lambda>l. l\<lparr>tabMan := g (tabMan l)\<rparr>) (findLeaf i t)"
proof -
  have "find (\<lambda>l. leafId l = i) (map (\<lambda>l. if leafId l = i then l\<lparr>tabMan := g (tabMan l)\<rparr> else l) xs)
          = map_option (\<lambda>l. l\<lparr>tabMan := g (tabMan l)\<rparr>) (find (\<lambda>l. leafId l = i) xs)" for xs :: "leaf list"
    by (induction xs) auto
  then show ?thesis
    by (simp add: findLeaf_def updateLeaf_def getAllLeafs_mapLeafs)
qed

lemma lookupWindow_updateWindow:
  "lookupWindow (updateWindow w g s) w = map_option g (lookupWindow s w)"
proof -
  have "map_of (map (\<lambda>(k, t). if k = w then (k, g t) else (k, t)) ws) w = map_option g (map_of ws w)" for ws
    by (induction ws) auto
  then show ?thesis by (simp add: lookupWindow_def updateWindow_def)
qed

lemma lookupWindow_cong: "windows s = windows s' \<Longrightarrow> lookupWindow s w = lookupWindow s' w"
  by (simp add: lookupWindow_def)




section \<open>Closing a file everywhere\<close>

lemma allLeafs_closeFileEverywhere:
  "allLeafs (closeFileEverywhere p s)
     = map (\<lambda>lf. lf\<lparr>tabMan := forceCloseTab p (tabMan lf)\<rparr>) (allLeafs s)"
  by (simp add: allLeafs_def closeFileEverywhere_def map_concat o_def case_prod_unfold
      getAllLeafs_mapLeafs)

lemma closeFileEverywhere_keys:
  "map fst (windows (closeFileEverywhere p s)) = map fst (windows s)"
  by (simp add: closeFileEverywhere_def case_prod_unfold)

lemma forceCloseEvents_shape:
  "e \<in> set (forceCloseEvents key p lf) \<Longrightarrow> \<exists>c. e = Broadcast CLOSE_FILE c"
  by (auto simp: forceCloseEvents_def split: if_splits)

lemma forceCloseEvents_eq:
  "forceCloseEvents key p lf =
     (if p \<in> set (openPaths (tabMan lf))
      then [Broadcast CLOSE_FILE (leafCtx key (leafId lf) (Some p))] else [])"
  by (simp add: forceCloseEvents_def forceCloseTab_fst)

lemma concat_map_if_filter:
  "concat (map (\<lambda>x. if P x then [h x] else []) xs) = map h (filter P xs)"
  by (induction xs) auto

text \<open>
  C5. \<^verbatim>\<open>closeFileEverywhere\<close> takes no answer of the user and records no call of
  \<^verbatim>\<open>askSaveChanges\<close>: the calls it issues are one \<^verbatim>\<open>CLOSE_FILE\<close> broadcast
  for every leaf that had the path open, in the order of the visit. It keeps the windows,
  the leaves and the tracked documents. In every leaf that had the path open it takes the
  path out of the pinned paths and takes one tab with the path out of the tabs, whether
  the path was pinned or not; the other leaves stay as they are. When the tabs of each
  leaf are unique by path and only open paths are pinned, as the tab manager keeps them,
  then afterwards no leaf of any window has a tab with the path, and in no leaf is the
  path pinned.
\<close>

theorem closeFileEverywhere_closes_all:
  assumes "\<forall>lf \<in> set (allLeafs s). distinct (openPaths (tabMan lf))"
    and "\<forall>lf \<in> set (allLeafs s). pinnedPaths (tabMan lf) \<subseteq> set (openPaths (tabMan lf))"
  shows "(\<forall>lf \<in> set (allLeafs (closeFileEverywhere p s)).
            p \<notin> set (openPaths (tabMan lf)) \<and> p \<notin> pinnedPaths (tabMan lf)) \<and>
         map (\<lambda>lf. openPaths (tabMan lf)) (allLeafs (closeFileEverywhere p s))
           = map (\<lambda>lf. remove1 p (openPaths (tabMan lf))) (allLeafs s) \<and>
         map (\<lambda>lf. pinnedPaths (tabMan lf)) (allLeafs (closeFileEverywhere p s))
           = map (\<lambda>lf. pinnedPaths (tabMan lf) - {p}) (allLeafs s) \<and>
         map leafId (allLeafs (closeFileEverywhere p s)) = map leafId (allLeafs s) \<and>
         map fst (windows (closeFileEverywhere p s)) = map fst (windows s) \<and>
         documents (closeFileEverywhere p s) = documents s \<and>
         effects (closeFileEverywhere p s) = effects s @
           concat (map (\<lambda>(key, tree).
                     map (\<lambda>lf. Broadcast CLOSE_FILE (leafCtx key (leafId lf) (Some p)))
                       (filter (\<lambda>lf. p \<in> set (openPaths (tabMan lf))) (getAllLeafs tree)))
                   (windows s)) \<and>
         AskSaveChanges \<notin> set (effects (closeFileEverywhere p s)) - set (effects s)"
proof -
  have pinned_after: "pinnedPaths (forceCloseTab p (tabMan lf0)) = pinnedPaths (tabMan lf0) - {p}"
    if "lf0 \<in> set (allLeafs s)" for lf0
    using assms(2) that by (auto simp: forceCloseTab_pinnedPaths)
  have gone: "p \<notin> set (openPaths (tabMan lf)) \<and> p \<notin> pinnedPaths (tabMan lf)"
    if "lf \<in> set (allLeafs (closeFileEverywhere p s))" for lf
  proof -
    from that obtain lf0 where lf0: "lf0 \<in> set (allLeafs s)"
      and "lf = lf0\<lparr>tabMan := forceCloseTab p (tabMan lf0)\<rparr>"
      by (auto simp: allLeafs_closeFileEverywhere)
    with assms(1) pinned_after [OF lf0] show ?thesis by (simp add: forceCloseTab_paths)
  qed
  have paths: "map (\<lambda>lf. openPaths (tabMan lf)) (allLeafs (closeFileEverywhere p s))
           = map (\<lambda>lf. remove1 p (openPaths (tabMan lf))) (allLeafs s)"
    by (simp add: allLeafs_closeFileEverywhere o_def forceCloseTab_paths)
  have pins: "map (\<lambda>lf. pinnedPaths (tabMan lf)) (allLeafs (closeFileEverywhere p s))
           = map (\<lambda>lf. pinnedPaths (tabMan lf) - {p}) (allLeafs s)"
    using pinned_after by (simp add: allLeafs_closeFileEverywhere o_def)
  have ids: "map leafId (allLeafs (closeFileEverywhere p s)) = map leafId (allLeafs s)"
    by (simp add: allLeafs_closeFileEverywhere o_def)
  have docs: "documents (closeFileEverywhere p s) = documents s"
    by (simp add: closeFileEverywhere_def)
  let ?evs = "concat (map (\<lambda>(key, tree).
                     map (\<lambda>lf. Broadcast CLOSE_FILE (leafCtx key (leafId lf) (Some p)))
                       (filter (\<lambda>lf. p \<in> set (openPaths (tabMan lf))) (getAllLeafs tree)))
                   (windows s))"
  have "concat (map (forceCloseEvents key p) ls)
          = map (\<lambda>lf. Broadcast CLOSE_FILE (leafCtx key (leafId lf) (Some p)))
              (filter (\<lambda>lf. p \<in> set (openPaths (tabMan lf))) ls)" for key ls
    using concat_map_if_filter [of "\<lambda>lf. p \<in> set (openPaths (tabMan lf))"
            "\<lambda>lf. Broadcast CLOSE_FILE (leafCtx key (leafId lf) (Some p))" ls]
    by (simp add: forceCloseEvents_eq [abs_def])
  then have ev: "effects (closeFileEverywhere p s) = effects s @ ?evs"
    by (simp add: closeFileEverywhere_def)
  have "AskSaveChanges \<notin> set ?evs"
    by auto
  then have noask: "AskSaveChanges \<notin> set (effects (closeFileEverywhere p s)) - set (effects s)"
    unfolding ev by auto
  from gone have all: "\<forall>lf \<in> set (allLeafs (closeFileEverywhere p s)).
            p \<notin> set (openPaths (tabMan lf)) \<and> p \<notin> pinnedPaths (tabMan lf)"
    by blast
  from all paths pins ids closeFileEverywhere_keys [of p s] docs ev noask
  show ?thesis by blast
qed

lemma exState_allLeafs: "allLeafs exState = [exLeaf1, exLeaf2, exLeaf3]"
  by (simp add: allLeafs_def exState_def)

lemma exState_distinct_tabs: "\<forall>lf \<in> set (allLeafs exState). distinct (openPaths (tabMan lf))"
  by (simp add: exState_allLeafs exLeaf1_def exLeaf2_def exLeaf3_def openPaths_def)

lemma exState_pinned_open:
  "\<forall>lf \<in> set (allLeafs exState). pinnedPaths (tabMan lf) \<subseteq> set (openPaths (tabMan lf))"
  by (simp add: exState_allLeafs exLeaf1_def exLeaf2_def exLeaf3_def openPaths_def)

theorem closeFileEverywhere_closes_all_witness:
  "map (\<lambda>lf. openPaths (tabMan lf)) (allLeafs exState) = [[''/a.md'', ''/b.md''], [''/c.md''], [''/b.md'']] \<and>
   map (\<lambda>lf. pinnedPaths (tabMan lf)) (allLeafs exState) = [{''/b.md''}, {}, {''/b.md''}] \<and>
   map (\<lambda>lf. openPaths (tabMan lf)) (allLeafs (closeFileEverywhere ''/b.md'' exState))
     = [[''/a.md''], [''/c.md''], []] \<and>
   map (\<lambda>lf. pinnedPaths (tabMan lf)) (allLeafs (closeFileEverywhere ''/b.md'' exState))
     = [{}, {}, {}] \<and>
   effects (closeFileEverywhere ''/b.md'' exState) =
     [Broadcast CLOSE_FILE (leafCtx ''w1'' ''l1'' (Some ''/b.md'')),
      Broadcast CLOSE_FILE (leafCtx ''w2'' ''l3'' (Some ''/b.md''))]"
proof -
  note T = closeFileEverywhere_closes_all [OF exState_distinct_tabs exState_pinned_open, of "''/b.md''"]
  from T have a: "map (\<lambda>lf. openPaths (tabMan lf)) (allLeafs (closeFileEverywhere ''/b.md'' exState))
           = map (\<lambda>lf. remove1 ''/b.md'' (openPaths (tabMan lf))) (allLeafs exState)"
    by blast
  from T have b: "map (\<lambda>lf. pinnedPaths (tabMan lf)) (allLeafs (closeFileEverywhere ''/b.md'' exState))
           = map (\<lambda>lf. pinnedPaths (tabMan lf) - {''/b.md''}) (allLeafs exState)"
    by blast
  from T have c: "effects (closeFileEverywhere ''/b.md'' exState) = effects exState @
           concat (map (\<lambda>(key, tree).
                     map (\<lambda>lf. Broadcast CLOSE_FILE (leafCtx key (leafId lf) (Some ''/b.md'')))
                       (filter (\<lambda>lf. ''/b.md'' \<in> set (openPaths (tabMan lf))) (getAllLeafs tree)))
                   (windows exState))"
    by blast
  show ?thesis
    unfolding a b c
    by (simp add: exState_allLeafs)
       (simp add: exState_def exLeaf1_def exLeaf2_def exLeaf3_def openPaths_def)
qed

section \<open>Closing the last reference to a modified file\<close>


lemma map_updateFirst_keep:
  "(\<And>x. h (g x) = h x) \<Longrightarrow> map h (updateFirst P g xs) = map h xs"
  by (induction xs) auto








lemma exState_l2:
  "findLeaf ''l2'' (Branch ''b1'' Horizontal [Leaf exLeaf1, Leaf exLeaf2]) = Some exLeaf2"
  by (simp add: findLeaf_def exLeaf1_def exLeaf2_def)


lemma exState_findC: "findDocument exState ''/c.md'' = Some (exDoc ''/c.md'' 5 4)"
  by (simp add: findDocument_def exState_def exDoc_def)

lemma exState_modC: "isModified exState ''/c.md''"
  by (simp add: isModified_iff [OF exState_findC] exDoc_def)


lemma exLeaf2_paths: "openPaths (tabMan exLeaf2) = [''/c.md'']"
  by (simp add: exLeaf2_def openPaths_def)




section \<open>Opening a file when new tabs are avoided\<close>

lemma lookupWindow_setTabMan:
  "lookupWindow s w = Some tree \<Longrightarrow>
     lookupWindow (setTabMan w l tm s) w = Some (updateLeaf l (\<lambda>old. tm) tree)"
  by (simp add: setTabMan_def lookupWindow_updateWindow)

lemma findLeaf_setTabMan:
  "findLeaf l tree = Some lf \<Longrightarrow>
     findLeaf l (updateLeaf l (\<lambda>old. tm) tree) = Some (lf\<lparr>tabMan := tm\<rparr>)"
  by (simp add: findLeaf_updateLeaf)

lemma setTabMan_documents: "documents (setTabMan w l tm s) = documents s"
  by (simp add: setTabMan_def updateWindow_simps)

lemma resolveLeaf_findLeaf:
  "resolveLeaf leafIdOpt tree = Some lf \<Longrightarrow> findLeaf (leafId lf) tree = Some lf"
proof (cases leafIdOpt)
  case None
  assume "resolveLeaf leafIdOpt tree = Some lf"
  with None obtain ls where "getAllLeafs tree = lf # ls"
    by (auto simp: resolveLeaf_def split: list.splits)
  then show ?thesis by (simp add: findLeaf_def)
next
  case (Some i)
  assume "resolveLeaf leafIdOpt tree = Some lf"
  with Some have f: "findLeaf i tree = Some lf" by (simp add: resolveLeaf_def)
  then have "leafId lf = i" unfolding findLeaf_def by (rule find_leafId)
  with f show ?thesis by simp
qed

lemma openFile_new_windows:
  assumes "lookupWindow s w = Some tree" and "resolveLeaf leafIdOpt tree = Some lf"
    and "fp \<notin> set (openPaths (tabMan lf))" and "activeFile (tabMan lf) = Some a"
  shows "windows (snd (openFile avoid w leafIdOpt fp newTab s)) =
           (if avoid \<and> newTab \<noteq> Some True \<and> \<not> isModified s a
            then windows (setTabMan w (leafId lf)
                   (snd (tm_closeFile a (snd (tm_openFile fp (tabMan lf)))))
                   (setTabMan w (leafId lf) (snd (tm_openFile fp (tabMan lf))) s))
            else windows (setTabMan w (leafId lf) (snd (tm_openFile fp (tabMan lf))) s))"
    and "documents (snd (openFile avoid w leafIdOpt fp newTab s)) = documents s"
    and "fst (openFile avoid w leafIdOpt fp newTab s) = Inr True"
  using assms
  by (simp_all add: openFile_def Let_def syncToConfig_simps emit_simps broadcastEvent_simps
      syncWatchedFilePaths_simps setTabMan_documents tm_openFile_new)

lemma tm_openFile_pinnedPaths: "pinnedPaths (snd (tm_openFile p tm)) = pinnedPaths tm"
  by (simp add: tm_openFile_def)

text \<open>
  C9. Let \<^verbatim>\<open>openFile\<close> be called for a file that has no tab in the target leaf,
  and let the leaf have an active file, which has a tab there. The file is opened in a
  new tab at the end. \<^verbatim>\<open>closeFile\<close> of the tab manager is called for the formerly
  active file exactly when \<^verbatim>\<open>system.avoidNewTabs\<close> is set, \<^verbatim>\<open>newTab\<close> is not true
  and the formerly active file is unmodified, and it closes the tab unless the file is
  pinned. So the tab of the formerly active file is closed only if the file is
  unmodified, and under no setting does a modified active file lose its tab. With
  \<^verbatim>\<open>avoidNewTabs\<close> set and no \<^verbatim>\<open>newTab\<close> flag the formerly active file keeps its
  tab if and only if it is modified or pinned; for a file that is not pinned, if and
  only if it is modified. The pinned paths of the leaf stay as they are. Tabs are unique
  by path within the leaf.
\<close>

theorem openFile_avoidNewTabs_closes_unmodified_only:
  assumes "lookupWindow s w = Some tree" and "resolveLeaf leafIdOpt tree = Some lf"
    and "fp \<notin> set (openPaths (tabMan lf))" and "activeFile (tabMan lf) = Some a"
    and "a \<in> set (openPaths (tabMan lf))" and "distinct (openPaths (tabMan lf))"
  shows "\<exists>lf'. fst (openFile avoid w leafIdOpt fp newTab s) = Inr True \<and>
           Option.bind (lookupWindow (snd (openFile avoid w leafIdOpt fp newTab s)) w)
             (findLeaf (leafId lf)) = Some lf' \<and>
           openPaths (tabMan lf') =
             (if avoid \<and> newTab \<noteq> Some True \<and> \<not> isModified s a \<and> a \<notin> pinnedPaths (tabMan lf)
              then remove1 a (openPaths (tabMan lf)) @ [fp]
              else openPaths (tabMan lf) @ [fp]) \<and>
           (a \<notin> set (openPaths (tabMan lf')) \<longleftrightarrow>
              avoid \<and> newTab \<noteq> Some True \<and> \<not> isModified s a \<and> a \<notin> pinnedPaths (tabMan lf)) \<and>
           (avoid \<and> newTab \<noteq> Some True \<longrightarrow>
              (a \<in> set (openPaths (tabMan lf')) \<longleftrightarrow> isModified s a \<or> a \<in> pinnedPaths (tabMan lf))) \<and>
           (avoid \<and> newTab \<noteq> Some True \<and> a \<notin> pinnedPaths (tabMan lf) \<longrightarrow>
              (a \<in> set (openPaths (tabMan lf')) \<longleftrightarrow> isModified s a)) \<and>
           (isModified s a \<longrightarrow> a \<in> set (openPaths (tabMan lf'))) \<and>
           (a \<notin> set (openPaths (tabMan lf')) \<longrightarrow> \<not> isModified s a) \<and>
           fp \<in> set (openPaths (tabMan lf')) \<and>
           pinnedPaths (tabMan lf') = pinnedPaths (tabMan lf)"
proof -
  let ?l = "leafId lf"
  let ?tm1 = "snd (tm_openFile fp (tabMan lf))"
  let ?tm2 = "snd (tm_closeFile a ?tm1)"
  let ?s' = "snd (openFile avoid w leafIdOpt fp newTab s)"
  have fl: "findLeaf ?l tree = Some lf"
    using assms(2) by (rule resolveLeaf_findLeaf)
  have ne: "a \<noteq> fp" using assms(3,5) by auto
  have p1: "openPaths ?tm1 = openPaths (tabMan lf) @ [fp]"
    using assms(3) by (rule tm_openFile_new(2))
  have q1: "pinnedPaths ?tm1 = pinnedPaths (tabMan lf)"
    by (rule tm_openFile_pinnedPaths)
  have p2: "openPaths ?tm2 =
      (if a \<in> pinnedPaths (tabMan lf) then openPaths (tabMan lf) @ [fp]
       else remove1 a (openPaths (tabMan lf)) @ [fp])"
    using assms(5) by (simp add: tm_closeFile_paths p1 q1 remove1_append)
  have q2: "pinnedPaths ?tm2 = pinnedPaths (tabMan lf)"
    by (simp add: tm_closeFile_pinnedPaths q1)
  have l1: "lookupWindow (setTabMan w ?l ?tm1 s) w = Some (updateLeaf ?l (\<lambda>old. ?tm1) tree)"
    using assms(1) by (rule lookupWindow_setTabMan)
  have f1: "findLeaf ?l (updateLeaf ?l (\<lambda>old. ?tm1) tree) = Some (lf\<lparr>tabMan := ?tm1\<rparr>)"
    using fl by (rule findLeaf_setTabMan)
  show ?thesis
  proof (cases "avoid \<and> newTab \<noteq> Some True \<and> \<not> isModified s a")
    case False
    have "windows ?s' = windows (setTabMan w ?l ?tm1 s)"
      using openFile_new_windows(1) [OF assms(1-4), of avoid newTab] False by auto
    then have "lookupWindow ?s' w = lookupWindow (setTabMan w ?l ?tm1 s) w"
      by (rule lookupWindow_cong)
    then have "Option.bind (lookupWindow ?s' w) (findLeaf ?l) = Some (lf\<lparr>tabMan := ?tm1\<rparr>)"
      by (simp add: l1 f1)
    then show ?thesis
      using False assms(5) openFile_new_windows(3) [OF assms(1-4), of avoid newTab]
      by (auto simp: p1 q1)
  next
    case True
    have "windows ?s' = windows (setTabMan w ?l ?tm2 (setTabMan w ?l ?tm1 s))"
      using openFile_new_windows(1) [OF assms(1-4), of avoid newTab] True by simp
    then have "lookupWindow ?s' w = lookupWindow (setTabMan w ?l ?tm2 (setTabMan w ?l ?tm1 s)) w"
      by (rule lookupWindow_cong)
    also have "\<dots> = Some (updateLeaf ?l (\<lambda>old. ?tm2) (updateLeaf ?l (\<lambda>old. ?tm1) tree))"
      using l1 by (rule lookupWindow_setTabMan)
    finally have "Option.bind (lookupWindow ?s' w) (findLeaf ?l)
                    = Some (lf\<lparr>tabMan := ?tm1, tabMan := ?tm2\<rparr>)"
      using findLeaf_setTabMan [OF f1, of ?tm2] by simp
    then show ?thesis
      using True assms(5,6) ne openFile_new_windows(3) [OF assms(1-4), of avoid newTab]
      by (simp add: p2 q2)
  qed
qed

lemma exLeaf2_active: "activeFile (tabMan exLeaf2) = Some ''/c.md''"
  by (simp add: exLeaf2_def)

lemma exLeaf3_facts:
  "openPaths (tabMan exLeaf3) = [''/b.md'']" "activeFile (tabMan exLeaf3) = Some ''/b.md''"
  "pinnedPaths (tabMan exLeaf3) = {''/b.md''}"
  by (simp_all add: exLeaf3_def openPaths_def)

lemma exState_w2: "lookupWindow exState ''w2'' = Some (Leaf exLeaf3)"
  by (simp add: lookupWindow_def exState_def)

lemma exState_modB: "\<not> isModified exState ''/b.md''"
  by (simp add: isModified_iff [OF exState_findB] exDoc_def)

lemma exMoveState_modX: "\<not> isModified exMoveState ''/a/b/x.md''"
  by (simp add: isModified_def findDocument_def exMoveState_def exDoc_def)

theorem openFile_avoidNewTabs_closes_unmodified_only_witness:
  "isModified exState ''/c.md'' \<and> \<not> isModified exState ''/b.md'' \<and>
   \<not> isModified exMoveState ''/a/b/x.md'' \<and>
   map_option (\<lambda>lf. openPaths (tabMan lf))
     (Option.bind (lookupWindow (snd (openFile True ''w1'' (Some ''l2'') ''/n.md'' None exState)) ''w1'')
        (findLeaf ''l2'')) = Some [''/c.md'', ''/n.md''] \<and>
   map_option (\<lambda>lf. openPaths (tabMan lf))
     (Option.bind (lookupWindow (snd (openFile True ''w1'' None ''/n.md'' (Some False) exMoveState)) ''w1'')
        (findLeaf ''l1'')) = Some [''/a/bc.md'', ''/n.md''] \<and>
   map_option (\<lambda>lf. openPaths (tabMan lf))
     (Option.bind (lookupWindow (snd (openFile True ''w2'' None ''/n.md'' (Some False) exState)) ''w2'')
        (findLeaf ''l3'')) = Some [''/b.md'', ''/n.md'']"
proof -
  let ?lm = "\<lparr>leafId = ''l1'',
               tabMan = \<lparr>openFiles = [\<lparr>path = ''/a/b/x.md''\<rparr>, \<lparr>path = ''/a/bc.md''\<rparr>],
                         activeFile = Some ''/a/b/x.md'', pinnedPaths = {}\<rparr>\<rparr>"
  have r2: "resolveLeaf (Some ''l2'') (Branch ''b1'' Horizontal [Leaf exLeaf1, Leaf exLeaf2]) = Some exLeaf2"
    by (simp add: resolveLeaf_def exState_l2)
  have r3: "resolveLeaf None (Leaf exLeaf3) = Some exLeaf3"
    by (simp add: resolveLeaf_def)
  have wm: "lookupWindow exMoveState ''w1'' = Some (Leaf ?lm)"
    by (simp add: lookupWindow_def exMoveState_def)
  have rm: "resolveLeaf None (Leaf ?lm) = Some ?lm"
    by (simp add: resolveLeaf_def)
  have am: "activeFile (tabMan ?lm) = Some ''/a/b/x.md''"
    by simp
  have i2: "leafId exLeaf2 = ''l2''" and i3: "leafId exLeaf3 = ''l3''"
    by (simp_all add: exLeaf2_def exLeaf3_def)
  have a: "map_option (\<lambda>lf. openPaths (tabMan lf))
     (Option.bind (lookupWindow (snd (openFile True ''w1'' (Some ''l2'') ''/n.md'' None exState)) ''w1'')
        (findLeaf ''l2'')) = Some [''/c.md'', ''/n.md'']"
    using openFile_avoidNewTabs_closes_unmodified_only [OF exState_w1 r2 _ exLeaf2_active,
        of "''/n.md''" True None]
    by (auto simp: exLeaf2_paths exState_modC i2)
  have b: "map_option (\<lambda>lf. openPaths (tabMan lf))
     (Option.bind (lookupWindow (snd (openFile True ''w2'' None ''/n.md'' (Some False) exState)) ''w2'')
        (findLeaf ''l3'')) = Some [''/b.md'', ''/n.md'']"
    using openFile_avoidNewTabs_closes_unmodified_only [OF exState_w2 r3 _ exLeaf3_facts(2),
        of "''/n.md''" True "Some False"]
    by (auto simp: exLeaf3_facts exState_modB i3)
  have c: "map_option (\<lambda>lf. openPaths (tabMan lf))
     (Option.bind (lookupWindow (snd (openFile True ''w1'' None ''/n.md'' (Some False) exMoveState)) ''w1'')
        (findLeaf ''l1'')) = Some [''/a/bc.md'', ''/n.md'']"
    using openFile_avoidNewTabs_closes_unmodified_only [OF wm rm _ am,
        of "''/n.md''" True "Some False"]
    by (auto simp: openPaths_def exMoveState_modX)
  from a b c exState_modC exState_modB exMoveState_modX show ?thesis by blast
qed

section \<open>The last window stays\<close>

lemma keys_frame:
  "map fst (windows (emit e s)) = map fst (windows s)"
  "map fst (windows (broadcastEvent ev c s)) = map fst (windows s)"
  "map fst (windows (syncToConfig s)) = map fst (windows s)"
  "map fst (windows (syncWatchedFilePaths s)) = map fst (windows s)"
  "map fst (windows (setTabMan w l tm s)) = map fst (windows s)"
  by (simp_all add: emit_simps broadcastEvent_simps syncToConfig_simps
      syncWatchedFilePaths_simps setTabMan_def updateWindow_simps)

lemma openFile_keys: "map fst (windows (snd (openFile avoid w l fp newTab s))) = map fst (windows s)"
  by (simp add: openFile_def Let_def keys_frame updateWindow_simps split: option.split)

lemma closeTab_keys: "map fst (windows (snd (closeTab w lf fp s))) = map fst (windows s)"
  by (simp add: closeTab_def Let_def keys_frame updateWindow_simps)

lemma saveFile_begin_keys: "windows (snd (saveFile_begin cw cc fp s)) = windows s"
  by (simp add: saveFile_begin_def Let_def emit_simps split: option.split)

lemma saveFile_keys: "windows (snd (saveFile cw cc io fp s)) = windows s"
proof (cases "saveFile_begin cw cc fp s")
  case (Pair job s1)
  have "windows s1 = windows s"
    using saveFile_begin_keys [of cw cc fp s] Pair by simp
  with Pair show ?thesis
    by (cases job) (auto simp: saveFile_def saveFile_finish_windows)
qed

lemma closeFile_keys:
  "map fst (windows (snd (closeFile cw cc response io w l fp s))) = map fst (windows s)"
proof -
  have a: "map fst (windows (snd (closeTab w lf fp (removeDocument fp (clearModificationFlag fp (emit AskSaveChanges s))))))
             = map fst (windows s)" for lf
    by (simp add: closeTab_keys removeDocument_def clearModificationFlag_def emit_simps)
  have b: "map fst (windows (snd (case saveFile cw cc io fp (emit AskSaveChanges s) of
                 (Inl e, s2) \<Rightarrow> (Inl e, s2)
               | (Inr saved, s2) \<Rightarrow> closeTab w lf fp (removeDocument fp s2))))
             = map fst (windows s)" for lf
  proof (cases "saveFile cw cc io fp (emit AskSaveChanges s)")
    case (Pair res s2)
    have "windows s2 = windows s"
      using saveFile_keys [of cw cc io fp "emit AskSaveChanges s"] Pair by (simp add: emit_simps)
    with Pair show ?thesis
      by (cases res) (simp_all add: closeTab_keys removeDocument_def)
  qed
  show ?thesis
    by (simp add: closeFile_def Let_def a b closeTab_keys emit_simps removeDocument_def
        clearModificationFlag_def split: option.split consent.split)
qed

lemma hasMovedFile_keys: "map fst (windows (hasMovedFile old new s)) = map fst (windows s)"
  by (simp add: hasMovedFile_def Let_def syncWatchedFilePaths_simps case_prod_unfold
      split: option.split)

lemma hasMovedDir_keys: "map fst (windows (hasMovedDir old new s)) = map fst (windows s)"
proof -
  have "map fst (windows (fold (movedDirStep old new) is s)) = map fst (windows s)" for "is"
    by (induction "is" arbitrary: s) (simp_all add: movedDirStep_def Let_def hasMovedFile_keys)
  then show ?thesis by (simp add: hasMovedDir_def)
qed

lemma pushUpdates_keys: "windows (snd (pushUpdates fp v ups s)) = windows s"
  by (simp add: pushUpdates_def Let_def split: option.split)

lemma onWatcherEvent_keys:
  "map fst (windows (onWatcherEvent hrc ev fp s)) = map fst (windows s)"
  by (simp add: onWatcherEvent_def processEvent_def closeFileEverywhere_keys)

lemma setPinnedStatus_keys:
  "map fst (windows (snd (setPinnedStatus w l fp b s))) = map fst (windows s)"
  by (simp add: setPinnedStatus_def keys_frame split: option.split)

lemma closeLeaf_keys: "map fst (windows (snd (closeLeaf w l s))) = map fst (windows s)"
  by (simp add: closeLeaf_def keys_frame updateWindow_simps split: option.split)

lemma moveFile_keys:
  "map fst (windows (snd (moveFile ow tw ol tleaf fp s))) = map fst (windows s)"
  by (simp add: moveFile_def Let_def keys_frame closeLeaf_keys split: option.split)

lemma notifyRemoteChange_keys: "windows (notifyRemoteChange fp s) = windows s"
  by (simp add: notifyRemoteChange_def broadcastEvent_simps removeDocument_def split: option.split)

lemma watcherRegistered_keys: "windows (watcherRegistered listed s) = windows s"
  by (simp add: watcherRegistered_def)

lemma freshKey_fresh: "freshKey ks draws = Some key \<Longrightarrow> key \<notin> set ks"
  by (induction draws) (auto split: if_splits)

lemma newWindow_keys:
  "newWindow draws lid s = Some s' \<Longrightarrow>
     \<exists>key. key \<notin> set (map fst (windows s)) \<and> map fst (windows s') = map fst (windows s) @ [key]"
  by (auto simp: newWindow_def keys_frame split: option.splits dest: freshKey_fresh)

lemma closeWindow_last: "length (windows s) = 1 \<Longrightarrow> closeWindow w s = s"
  by (simp add: closeWindow_def)

lemma closeWindow_keys:
  "map fst (windows (closeWindow w s)) =
     (if \<not> shuttingDown s \<and> w \<in> set (map fst (windows s)) \<and> length (windows s) \<noteq> 1
      then filter (\<lambda>k. k \<noteq> w) (map fst (windows s)) else map fst (windows s))"
proof -
  have id: "filter (\<lambda>p. fst p \<noteq> w) ws = ws" if "w \<notin> fst ` set ws" for ws :: "(string \<times> node) list"
    using that by (induction ws) auto
  have own: "w \<in> set (map fst (windows s)) \<Longrightarrow> inWindows w s"
    by (simp add: inWindows_def)
  show ?thesis
    using id [of "windows s"] own
    by (auto simp: closeWindow_def Let_def syncToConfig_simps filter_map o_def case_prod_unfold)
qed

lemma filter_neq_nonempty:
  "distinct ks \<Longrightarrow> length ks \<noteq> 1 \<Longrightarrow> ks \<noteq> [] \<Longrightarrow> filter (\<lambda>k. k \<noteq> w) ks \<noteq> []"
proof (cases ks)
  case Nil
  assume "ks \<noteq> []" with Nil show ?thesis by simp
next
  case (Cons a as)
  assume d: "distinct ks" and l: "length ks \<noteq> 1"
  from Cons l obtain b bs where as: "as = b # bs" by (cases as) auto
  with Cons d have "a \<noteq> b" by auto
  with Cons as show ?thesis by auto
qed

lemma exec_keys:
  "map fst (windows (exec cw cc hrc req s)) = map fst (windows s) \<or>
   (\<exists>key. key \<notin> set (map fst (windows s)) \<and>
      map fst (windows (exec cw cc hrc req s)) = map fst (windows s) @ [key]) \<or>
   (\<exists>w. length (windows s) \<noteq> 1 \<and>
      map fst (windows (exec cw cc hrc req s)) = filter (\<lambda>k. k \<noteq> w) (map fst (windows s)))"
proof (cases req)
  case (NewWindow draws lid)
  then show ?thesis
    by (cases "newWindow draws lid s") (auto dest: newWindow_keys)
next
  case (CloseWindow w)
  then show ?thesis by (auto simp: closeWindow_keys)
next
  case (MutateTree w g evs)
  then show ?thesis by (simp add: updateWindow_simps)
qed (simp_all add: openFile_keys closeFile_keys closeFileEverywhere_keys hasMovedFile_keys
      hasMovedDir_keys saveFile_begin_keys saveFile_finish_windows pushUpdates_keys
      onWatcherEvent_keys setPinnedStatus_keys closeLeaf_keys moveFile_keys
      notifyRemoteChange_keys watcherRegistered_keys)

lemma exec_keeps_window:
  assumes "distinct (map fst (windows s))" and "windows s \<noteq> []"
  shows "distinct (map fst (windows (exec cw cc hrc req s))) \<and> windows (exec cw cc hrc req s) \<noteq> []"
proof -
  let ?ks = "map fst (windows s)" and ?ks' = "map fst (windows (exec cw cc hrc req s))"
  have ne: "?ks \<noteq> []" using assms(2) by simp
  from exec_keys [of cw cc hrc req s]
  have "distinct ?ks' \<and> ?ks' \<noteq> []"
  proof (elim disjE exE conjE)
    assume "?ks' = ?ks"
    with assms(1) ne show ?thesis by simp
  next
    fix key assume "key \<notin> set ?ks" and "?ks' = ?ks @ [key]"
    with assms(1) show ?thesis by simp
  next
    fix w assume l: "length (windows s) \<noteq> 1" and k: "?ks' = filter (\<lambda>k. k \<noteq> w) ?ks"
    have "filter (\<lambda>k. k \<noteq> w) ?ks \<noteq> []"
      using assms(1) l ne by (intro filter_neq_nonempty) simp_all
    with assms(1) k show ?thesis by simp
  qed
  then show ?thesis by auto
qed

lemma fold_exec_keeps_window:
  "distinct (map fst (windows s)) \<Longrightarrow> windows s \<noteq> [] \<Longrightarrow>
     distinct (map fst (windows (fold (exec cw cc hrc) reqs s))) \<and>
     windows (fold (exec cw cc hrc) reqs s) \<noteq> []"
proof (induction reqs arbitrary: s)
  case Nil
  then show ?case by simp
next
  case (Cons req reqs)
  from exec_keeps_window [OF Cons.prems, of cw cc hrc req]
  show ?case by (simp add: Cons.IH)
qed

text \<open>
  C8. When exactly one window exists, \<^verbatim>\<open>closeWindow\<close> returns the state it was
  given, whatever the identifier: the window map is unchanged. Of all requests only
  \<^verbatim>\<open>closeWindow\<close> takes a key out of the window map, and only when another window
  exists. So from a state with at least one window every sequence of requests leads to a
  state with at least one window. The keys of the window map are distinct, as the keys
  of an object are.
\<close>

theorem closeWindow_keeps_last_window:
  "(windowCount s = 1 \<longrightarrow> closeWindow w s = s \<and> windows (closeWindow w s) = windows s) \<and>
   (distinct (map fst (windows s)) \<and> 1 \<le> windowCount s \<longrightarrow>
      1 \<le> windowCount (closeWindow w s) \<and>
      1 \<le> windowCount (fold (exec cw cc hrc) reqs s) \<and>
      distinct (map fst (windows (fold (exec cw cc hrc) reqs s))))"
proof (intro conjI impI)
  assume "windowCount s = 1"
  then show "closeWindow w s = s"
    by (simp add: windowCount_def closeWindow_last)
  then show "windows (closeWindow w s) = windows s" by simp
next
  assume a: "distinct (map fst (windows s)) \<and> 1 \<le> windowCount s"
  then have d: "distinct (map fst (windows s))" and n: "windows s \<noteq> []"
    by (auto simp: windowCount_def)
  from exec_keeps_window [OF d n, of cw cc hrc "CloseWindow w"]
  show "1 \<le> windowCount (closeWindow w s)"
    by (cases "windows (closeWindow w s)") (simp_all add: windowCount_def)
  from fold_exec_keeps_window [OF d n, of cw cc hrc reqs]
  show "1 \<le> windowCount (fold (exec cw cc hrc) reqs s)"
    by (cases "windows (fold (exec cw cc hrc) reqs s)") (simp_all add: windowCount_def)
  from fold_exec_keeps_window [OF d n, of cw cc hrc reqs]
  show "distinct (map fst (windows (fold (exec cw cc hrc) reqs s)))" by simp
qed

lemma exState_close_w2:
  "windows (closeWindow ''w2'' exState)
     = [(''w1'', Branch ''b1'' Horizontal [Leaf exLeaf1, Leaf exLeaf2])]"
  by (simp add: closeWindow_def inWindows_def syncToConfig_simps exState_def)

theorem closeWindow_keeps_last_window_witness:
  "windowCount exState = 2 \<and>
   windowCount (closeWindow ''w2'' exState) = 1 \<and>
   closeWindow ''w1'' (closeWindow ''w2'' exState) = closeWindow ''w2'' exState \<and>
   1 \<le> windowCount (fold (exec exCount exCount exReconcile)
          [CloseWindow ''w2'', CloseWindow ''w1'', CloseFileEverywhere ''/a.md'', CloseWindow ''w1'']
          exState)"
proof -
  have c: "windowCount exState = 2" and d: "distinct (map fst (windows exState))"
    by (simp_all add: windowCount_def exState_def)
  have one: "windowCount (closeWindow ''w2'' exState) = 1"
    by (simp add: windowCount_def exState_close_w2)
  from closeWindow_keeps_last_window [of "closeWindow ''w2'' exState" "''w1''"] one
  have same: "closeWindow ''w1'' (closeWindow ''w2'' exState) = closeWindow ''w2'' exState"
    by blast
  from closeWindow_keeps_last_window [of exState "''w1''" exCount exCount exReconcile
      "[CloseWindow ''w2'', CloseWindow ''w1'', CloseFileEverywhere ''/a.md'', CloseWindow ''w1'']"] c d
  have "1 \<le> windowCount (fold (exec exCount exCount exReconcile)
          [CloseWindow ''w2'', CloseWindow ''w1'', CloseFileEverywhere ''/a.md'', CloseWindow ''w1'']
          exState)"
    by simp
  with c one same show ?thesis by blast
qed


text \<open>
  A name that the window map inherits passes the test of \<^verbatim>\<open>closeWindow\<close>: with two
  windows the call for \<^verbatim>\<open>toString\<close> removes no window and writes the configuration.
\<close>

lemma closeWindow_inherited_name:
  "windows (closeWindow ''toString'' exState) = windows exState \<and>
   effects (closeWindow ''toString'' exState) = [ConfigSet]"
  by (simp add: closeWindow_def inWindows_def objectPrototypeNames_def syncToConfig_def emit_def
      exState_def)

section \<open>Renaming a directory\<close>

lemma getSubstitution_literal:
  "CHR ''$'' \<notin> set rep \<Longrightarrow> getSubstitution m b a rep = rep"
  by (induction m b a rep rule: getSubstitution.induct) auto

lemma splitFirst_prefix:
  "startsWith s pat \<Longrightarrow> splitFirst pat s = Some ([], drop (length pat) s)"
  by (cases s) (auto elim: startsWith.elims)

lemma startsWith_append: "startsWith (pat @ rest) pat"
  by (induction pat) auto

lemma startsWith_iff: "startsWith s pat = (take (length pat) s = pat)"
  by (induction s pat rule: startsWith.induct) auto

lemma jsReplace_prefix_literal:
  "startsWith s pat \<Longrightarrow> CHR ''$'' \<notin> set rep \<Longrightarrow> jsReplace s pat rep = rep @ drop (length pat) s"
  by (simp add: jsReplace_def splitFirst_prefix getSubstitution_literal)

lemma documents_hasMovedFile:
  "map filePath (documents (hasMovedFile old new s))
     = updateFirst (\<lambda>q. q = old) (\<lambda>q. new) (map filePath (documents s))"
proof -
  have upd: "map filePath (updateFirst (\<lambda>d. filePath d = old)
               (\<lambda>d. d\<lparr>filePath := new, descriptor := (descriptor d)\<lparr>dpath := new\<rparr>\<rparr>) ds)
             = updateFirst (\<lambda>q. q = old) (\<lambda>q. new) (map filePath ds)" for ds :: "Document list"
    by (induction ds) auto
  have none: "find (\<lambda>d. filePath d = old) ds = None \<Longrightarrow>
                updateFirst (\<lambda>q. q = old) (\<lambda>q. new) (map filePath ds) = map filePath ds" for ds :: "Document list"
    by (induction ds) (auto split: if_splits)
  show ?thesis
    by (simp add: hasMovedFile_def Let_def findDocument_def syncWatchedFilePaths_simps upd none
        split: option.split)
qed

lemma updateFirst_at:
  "j < length Q \<Longrightarrow> Q ! j = p \<Longrightarrow> (\<And>k. k < j \<Longrightarrow> Q ! k \<noteq> p) \<Longrightarrow>
     updateFirst (\<lambda>q. q = p) (\<lambda>q. v) Q = Q[j := v]"
proof (induction Q arbitrary: j)
  case Nil
  then show ?case by simp
next
  case (Cons x Q)
  show ?case
  proof (cases j)
    case 0
    with Cons.prems show ?thesis by simp
  next
    case (Suc j')
    have "x \<noteq> p" using Cons.prems(3) [of 0] Suc by simp
    moreover have "updateFirst (\<lambda>q. q = p) (\<lambda>q. v) Q = Q[j' := v]"
    proof (rule Cons.IH)
      show "j' < length Q" using Cons.prems(1) Suc by simp
      show "Q ! j' = p" using Cons.prems(2) Suc by simp
      show "Q ! k \<noteq> p" if "k < j'" for k
        using Cons.prems(3) [of "Suc k"] that Suc by simp
    qed
    ultimately show ?thesis using Suc by simp
  qed
qed

lemma documents_fold_movedDirStep:
  "map filePath (documents (fold (movedDirStep old new) is s))
     = fold (\<lambda>i Q. if i < length Q
                    then updateFirst (\<lambda>q. q = Q ! i) (\<lambda>q. jsReplace (Q ! i) old new) Q else Q)
         is (map filePath (documents s))"
proof (induction "is" arbitrary: s)
  case Nil
  then show ?case by simp
next
  case (Cons i "is")
  have "map filePath (documents (movedDirStep old new i s))
          = (let Q = map filePath (documents s)
             in if i < length Q
                then updateFirst (\<lambda>q. q = Q ! i) (\<lambda>q. jsReplace (Q ! i) old new) Q else Q)"
    by (simp add: movedDirStep_def Let_def documents_hasMovedFile)
  then show ?case by (simp add: Cons.IH Let_def)
qed

lemma fold_pathStep_upto:
  fixes P :: "string list" and old new :: string
  defines "ren \<equiv> \<lambda>p. if startsWith p old then jsReplace p old new else p"
  defines "stepf \<equiv> \<lambda>i Q. if i < length Q
                    then updateFirst (\<lambda>q. q = Q ! i) (\<lambda>q. jsReplace (Q ! i) old new) Q else Q"
  assumes free: "\<And>i k. k < i \<Longrightarrow> i < length P \<Longrightarrow> startsWith (P ! i) old \<Longrightarrow> ren (P ! k) \<noteq> P ! i"
    and j: "j \<le> length P"
  shows "fold stepf (filter (\<lambda>i. startsWith (P ! i) old) [0 ..< j]) P
         = map ren (take j P) @ drop j P"
  using j
proof (induction j)
  case 0
  then show ?case by simp
next
  case (Suc j)
  define Q where "Q = map ren (take j P) @ drop j P"
  have jl: "j < length P" using Suc.prems by simp
  have IH: "fold stepf (filter (\<lambda>i. startsWith (P ! i) old) [0 ..< j]) P = Q"
    using Suc.IH jl by (simp add: Q_def)
  have len: "length Q = length P" using jl by (simp add: Q_def)
  have qj: "Q ! j = P ! j" using jl by (simp add: Q_def nth_append)
  have next_eq: "map ren (take (Suc j) P) @ drop (Suc j) P = Q[j := ren (P ! j)]"
    using jl
    by (simp add: Q_def take_Suc_conv_app_nth list_update_append Cons_nth_drop_Suc [symmetric])
  have fold_suc: "fold stepf (filter (\<lambda>i. startsWith (P ! i) old) [0 ..< Suc j]) P
                   = (if startsWith (P ! j) old then stepf j Q else Q)"
    by (simp add: IH)
  show ?case
  proof (cases "startsWith (P ! j) old")
    case True
    have before: "Q ! k \<noteq> P ! j" if "k < j" for k
      using free [OF that jl True] that jl by (simp add: Q_def nth_append)
    have "stepf j Q = updateFirst (\<lambda>q. q = P ! j) (\<lambda>q. jsReplace (P ! j) old new) Q"
      using jl by (simp add: stepf_def len qj)
    also have "\<dots> = Q[j := jsReplace (P ! j) old new]"
      using before by (intro updateFirst_at) (simp_all add: len jl qj)
    also have "\<dots> = Q[j := ren (P ! j)]"
      using True by (simp add: ren_def)
    finally show ?thesis
      unfolding fold_suc next_eq using True by simp
  next
    case False
    then have "ren (P ! j) = P ! j" by (simp add: ren_def)
    then have "Q[j := ren (P ! j)] = Q" using qj by (metis list_update_id)
    then show ?thesis
      unfolding fold_suc next_eq using False by simp
  qed
qed

lemma hasMovedDir_documents:
  assumes "\<And>i k. k < i \<Longrightarrow> i < length (documents s) \<Longrightarrow>
             startsWith (filePath (documents s ! i)) old \<Longrightarrow>
             (if startsWith (filePath (documents s ! k)) old
              then jsReplace (filePath (documents s ! k)) old new
              else filePath (documents s ! k)) \<noteq> filePath (documents s ! i)"
  shows "map filePath (documents (hasMovedDir old new s))
           = map (\<lambda>p. if startsWith p old then jsReplace p old new else p)
               (map filePath (documents s))"
proof -
  let ?P = "map filePath (documents s)"
  have idx: "filter (\<lambda>i. startsWith (filePath (documents s ! i)) old) [0 ..< length (documents s)]
               = filter (\<lambda>i. startsWith (?P ! i) old) [0 ..< length ?P]"
    by (rule filter_cong) simp_all
  have "fold (\<lambda>i Q. if i < length Q
                    then updateFirst (\<lambda>q. q = Q ! i) (\<lambda>q. jsReplace (Q ! i) old new) Q else Q)
           (filter (\<lambda>i. startsWith (?P ! i) old) [0 ..< length ?P]) ?P
         = map (\<lambda>p. if startsWith p old then jsReplace p old new else p) (take (length ?P) ?P)
             @ drop (length ?P) ?P"
  proof (rule fold_pathStep_upto)
    fix i k assume "k < i" and "i < length ?P" and "startsWith (?P ! i) old"
    then show "(if startsWith (?P ! k) old then jsReplace (?P ! k) old new else ?P ! k) \<noteq> ?P ! i"
      using assms [of k i] by (simp split: if_splits)
  qed simp
  then show ?thesis
    by (simp add: hasMovedDir_def documents_fold_movedDirStep idx)
qed

text \<open>
  When the new path holds no dollar sign and no rewritten path equals the path of a
  document further down the list, every tracked document whose path starts with the old
  path has it replaced by the new path at the front, and the others keep theirs.
\<close>

lemma hasMovedDir_literal:
  assumes "CHR ''$'' \<notin> set new"
    and "\<And>i k. k < i \<Longrightarrow> i < length (documents s) \<Longrightarrow>
             startsWith (filePath (documents s ! i)) old \<Longrightarrow>
             (if startsWith (filePath (documents s ! k)) old
              then jsReplace (filePath (documents s ! k)) old new
              else filePath (documents s ! k)) \<noteq> filePath (documents s ! i)"
  shows "map filePath (documents (hasMovedDir old new s))
           = map (\<lambda>p. if startsWith p old then new @ drop (length old) p else p)
               (map filePath (documents s))"
  using hasMovedDir_documents [of s old new, OF assms(2)] assms(1)
  by (simp add: jsReplace_prefix_literal cong: if_cong)

lemma exMoveState_paths:
  "map filePath (documents exMoveState) = [''/a/b/x.md'', ''/a/bc.md'', ''/z.md'']"
  by (simp add: exMoveState_def exDoc_def)

lemma exMoveState_moved_plain:
  "map filePath (documents (hasMovedDir ''/a/b'' ''/a/z'' exMoveState))
     = [''/a/z/x.md'', ''/a/zc.md'', ''/z.md'']"
  by code_simp

text \<open>
  C10. \<^verbatim>\<open>hasMovedDir\<close> passes the new path to \<^verbatim>\<open>String.prototype.replace\<close> as
  the replacement, where it is read as a template. For the new path
  \<^verbatim>\<open>/a/$$\<close> the documents \<^verbatim>\<open>/a/b/x.md\<close> and \<^verbatim>\<open>/a/bc.md\<close> are passed to
  \<^verbatim>\<open>hasMovedFile\<close> with \<^verbatim>\<open>/a/$/x.md\<close> and \<^verbatim>\<open>/a/$c.md\<close>, and these become
  their paths and the paths of their tabs; replacing the old path by the new path gives
  \<^verbatim>\<open>/a/$$/x.md\<close> and \<^verbatim>\<open>/a/$$c.md\<close>.
\<close>

theorem hasMovedDir_replacement_template:
  "startsWith ''/a/b/x.md'' ''/a/b'' \<and> startsWith ''/a/bc.md'' ''/a/b'' \<and>
   map filePath (documents (hasMovedDir ''/a/b'' ''/a/$$'' exMoveState))
     = [''/a/$/x.md'', ''/a/$c.md'', ''/z.md''] \<and>
   map (\<lambda>lf. openPaths (tabMan lf)) (allLeafs (hasMovedDir ''/a/b'' ''/a/$$'' exMoveState))
     = [[''/a/$/x.md'', ''/a/$c.md'']] \<and>
   map (\<lambda>p. if startsWith p ''/a/b'' then ''/a/$$'' @ drop (length ''/a/b'') p else p)
     (map filePath (documents exMoveState))
     = [''/a/$$/x.md'', ''/a/$$c.md'', ''/z.md'']"
  by code_simp


end
